theory Spec2Isabelle
  imports Main "HOL-Library.AList"
begin

section \<open>Errors, JSON values and dictionaries\<close>

text \<open>
  The schema generator of \<^verbatim>\<open>alchemyjsonschema/__init__.py\<close> is embedded as pure
  functions.  Every exception of the source is a value of \<open>error\<close>; a function that may
  raise returns \<open>error + 'a\<close> with \<open>Inl\<close> the raised exception.
\<close>

datatype sqltype = SqlType
  (cls: string)
  (impl: "sqltype option")
  (length_attr: "int option option")
  (enums: "string list option")
  (item_type: "sqltype option")

text \<open>
  A native type instance: \<open>cls\<close> is the name of its class, the other fields are what
  \<^verbatim>\<open>getattr\<close> finds on the instance (\<open>None\<close>: no such attribute).  \<open>length_attr\<close> of
  \<open>Some None\<close> is an attribute \<^verbatim>\<open>length\<close> that holds \<^verbatim>\<open>None\<close>.
\<close>

datatype invalid =
    Conflict "string list" "string option list"
  | NotFound sqltype
  | InvalidOverrides "string list"

datatype error =
    InvalidStatus invalid
  | KeyError string
  | TypeError
  | AttributeError string
  | IndexError
  | ValueError
  | Exception string
  | UnmappedClass string

datatype json = JStr string | JInt int | JList "json list" | JObj "(string \<times> json) list"

type_synonym dict = "(string \<times> json) list"

definition ebind :: "error + 'a \<Rightarrow> ('a \<Rightarrow> error + 'b) \<Rightarrow> error + 'b" where
  "ebind m f = (case m of Inl e \<Rightarrow> Inl e | Inr x \<Rightarrow> f x)"

text \<open>\<^verbatim>\<open>d[k] = v\<close>: an existing key keeps its place, a new key goes last.\<close>

definition dict_set :: "string \<Rightarrow> json \<Rightarrow> dict \<Rightarrow> dict" where
  "dict_set k v d = AList.update k v d"

text \<open>\<^verbatim>\<open>d.pop(k)\<close> with no default: KeyError when the key is absent.\<close>

definition dict_pop :: "string \<Rightarrow> dict \<Rightarrow> error + dict" where
  "dict_pop k d = (if k \<in> fst ` set d then Inr (AList.delete k d) else Inl (KeyError k))"

text \<open>\<^verbatim>\<open>d.update(other)\<close>.\<close>

fun dict_update :: "dict \<Rightarrow> dict \<Rightarrow> dict" where
  "dict_update d [] = d"
| "dict_update d ((k, v) # kvs) = dict_update (dict_set k v d) kvs"

section \<open>Strings\<close>

fun startswith :: "string \<Rightarrow> string \<Rightarrow> bool" where
  "startswith s [] = True"
| "startswith [] (p # ps) = False"
| "startswith (c # s) (p # ps) = (c = p \<and> startswith s ps)"

text \<open>\<^verbatim>\<open>s.split(sep, 1)\<close> for a non-empty separator: split at the first occurrence.\<close>

fun split1 :: "string \<Rightarrow> string \<Rightarrow> string list" where
  "split1 sep [] = [[]]"
| "split1 sep (c # s) =
     (if startswith (c # s) sep then [[], drop (length sep) (c # s)]
      else (case split1 sep s of
              [] \<Rightarrow> [[c]]
            | a # rest \<Rightarrow> (c # a) # rest))"

text \<open>\<^verbatim>\<open>e.split(splitter, 1)[1]\<close>: ValueError on an empty separator, IndexError when
  the separator does not occur.\<close>

definition split_tail :: "string \<Rightarrow> string \<Rightarrow> error + string" where
  "split_tail splitter e =
     (if splitter = [] then Inl ValueError
      else (case split1 splitter e of
              a # t # rest \<Rightarrow> Inr t
            | _ \<Rightarrow> Inl IndexError))"

definition digit_char :: "nat \<Rightarrow> char" where
  "digit_char d = char_of (48 + d)"

fun show_nat :: "nat \<Rightarrow> string" where
  "show_nat n = (if n < 10 then [digit_char n] else show_nat (n div 10) @ [digit_char (n mod 10)])"

text \<open>\<^verbatim>\<open>"{}".format(n)\<close> for an integer.\<close>

definition show_int :: "int \<Rightarrow> string" where
  "show_int i = (if i < 0 then CHR ''-'' # show_nat (nat (- i)) else show_nat (nat i))"

definition is_space :: "char \<Rightarrow> bool" where
  "is_space c = (c \<in> set [CHR '' '', CHR 0x09, CHR 0x0A, CHR 0x0B, CHR 0x0C, CHR 0x0D,
                            CHR 0x1C, CHR 0x1D, CHR 0x1E, CHR 0x1F])"

text \<open>\<^verbatim>\<open>doc.split()\<close>: the words between runs of whitespace; the first argument is the
  word read so far.\<close>

fun split_ws :: "string \<Rightarrow> string \<Rightarrow> string list" where
  "split_ws w [] = (if w = [] then [] else [w])"
| "split_ws w (c # cs) =
     (if is_space c then (if w = [] then split_ws [] cs else w # split_ws [] cs)
      else split_ws (w @ [c]) cs)"

fun join_space :: "string list \<Rightarrow> string" where
  "join_space [] = []"
| "join_space [w] = w"
| "join_space (w # v # ws) = w @ '' '' @ join_space (v # ws)"

text \<open>\<^verbatim>\<open>SchemaFactory._clean_doc\<close>; \<^verbatim>\<open>strip\<close> changes no word that \<^verbatim>\<open>split\<close> returned.\<close>

definition clean_doc :: "string \<Rightarrow> string" where
  "clean_doc doc = join_space (split_ws [] doc)"

section \<open>The type classifier\<close>

text \<open>
  Classes are named by strings.  The class table gives each class the tail of its
  method resolution order (its proper ancestors, most specific first); \<open>mro\<close> puts the
  class itself in front, as \<^verbatim>\<open>cls.mro()\<close> does.
\<close>

type_synonym class_table = "(string \<times> string list) list"

definition mro :: "class_table \<Rightarrow> string \<Rightarrow> string list" where
  "mro ct c = c # (case map_of ct c of None \<Rightarrow> [] | Some ancestors \<Rightarrow> ancestors)"

definition isinstance :: "class_table \<Rightarrow> sqltype \<Rightarrow> string \<Rightarrow> bool" where
  "isinstance ct k c = (c \<in> set (mro ct (cls k)))"

text \<open>The loop \<^verbatim>\<open>for sc in cls.mro(): if sc in self.mapping: return sc, self.mapping[sc]\<close>.\<close>

fun first_mapped :: "(string \<times> string) list \<Rightarrow> string list \<Rightarrow> (string \<times> string) option" where
  "first_mapped mapping [] = None"
| "first_mapped mapping (sc # scs) =
     (case map_of mapping sc of
        Some v \<Rightarrow> Some (sc, v)
      | None \<Rightarrow> first_mapped mapping scs)"

text \<open>\<^verbatim>\<open>Classifier.__getitem__\<close>.\<close>

definition unwrap :: "class_table \<Rightarrow> sqltype \<Rightarrow> error + sqltype" where
  "unwrap ct k =
     (if isinstance ct k ''TypeDecorator''
      then (case impl k of None \<Rightarrow> Inl (AttributeError ''impl'') | Some i \<Rightarrow> Inr i)
      else Inr k)"

definition classify :: "class_table \<Rightarrow> (string \<times> string) list \<Rightarrow> sqltype \<Rightarrow> error + (string \<times> string)" where
  "classify ct mapping k0 =
     ebind (unwrap ct k0) (\<lambda>k.
       (case map_of mapping (cls k) of
          Some v \<Rightarrow> Inr (cls k, v)
        | None \<Rightarrow>
           (case first_mapped mapping (mro ct (cls k)) of
              Some r \<Rightarrow> Inr r
            | None \<Rightarrow> Inl (InvalidStatus (NotFound k)))))"

section \<open>The reflected model\<close>

datatype coltype = TypeInstance sqltype | TypeClass string

text \<open>
  A column of a table.  \<open>c_type\<close> is \<^verbatim>\<open>column.type\<close>: an instance, or (when
  \<^verbatim>\<open>type(column.type)\<close> is the metaclass \<^verbatim>\<open>VisitableType\<close>) a class.  \<open>c_default\<close> is
  \<open>None\<close> exactly when \<^verbatim>\<open>column.default is None\<close>; \<open>c_foreign_keys\<close> is the truth value of
  \<^verbatim>\<open>column.foreign_keys\<close>.  Columns are compared by identity in the source; a column is
  identified here by its table and name.
\<close>

record column =
  c_table :: string
  c_name :: string
  c_type :: coltype
  c_nullable :: bool
  c_default :: "string option"
  c_foreign_keys :: bool
  c_doc :: "string option"

datatype direction = ONETOMANY | MANYTOONE | MANYTOMANY

text \<open>
  A relationship property.  \<open>r_owner\<close> is the class that declares it and \<open>r_target\<close> the
  class of \<^verbatim>\<open>prop.mapper\<close>; properties are compared by identity in the source
  (\<^verbatim>\<open>prop not in self.history\<close>), and owner and key identify a property.
\<close>

record relationship =
  r_owner :: string
  r_key :: string
  r_target :: string
  r_direction :: direction
  r_local_columns :: "column list"
  r_remote_side :: "column list"
  r_back_populates :: "string option"
  r_backref :: "string option"

text \<open>
  A column property has at least one column (its constructor takes one and more).
  \<open>OtherProperty\<close> is any mapper property with neither \<^verbatim>\<open>columns\<close> nor \<^verbatim>\<open>mapper\<close>.
\<close>

datatype property =
    ColumnProperty string column "column list"
  | RelationshipProperty relationship
  | OtherProperty string

fun prop_key :: "property \<Rightarrow> string" where
  "prop_key (ColumnProperty k c cs) = k"
| "prop_key (RelationshipProperty r) = r_key r"
| "prop_key (OtherProperty k) = k"

text \<open>\<^verbatim>\<open>getattr(prop, "columns", Empty)\<close>.\<close>

fun columns_or_empty :: "property \<Rightarrow> column list" where
  "columns_or_empty (ColumnProperty k c cs) = c # cs"
| "columns_or_empty (RelationshipProperty r) = []"
| "columns_or_empty (OtherProperty k) = []"

text \<open>
  A mapper: \<open>m_columns\<close> is \<^verbatim>\<open>mapper.local_table.columns\<close>, \<open>m_props\<close> the values of
  \<^verbatim>\<open>mapper._props\<close> in order (the dictionary's key is the property's key).
\<close>

record mapper =
  m_class :: string
  m_table :: string
  m_tablename :: string
  m_doc :: "string option"
  m_columns :: "column list"
  m_props :: "property list"

text \<open>\<^verbatim>\<open>mapper._props[name]\<close>.\<close>

definition props_lookup :: "mapper \<Rightarrow> string \<Rightarrow> error + property" where
  "props_lookup m n =
     (case find (\<lambda>p. prop_key p = n) (m_props m) of
        None \<Rightarrow> Inl (KeyError n)
      | Some p \<Rightarrow> Inr p)"

text \<open>\<^verbatim>\<open>mapper.relationships\<close>: the relationship properties among \<^verbatim>\<open>_props\<close>.\<close>

fun relationships :: "property list \<Rightarrow> relationship list" where
  "relationships [] = []"
| "relationships (RelationshipProperty r # ps) = r # relationships ps"
| "relationships (p # ps) = relationships ps"

text \<open>The mapped classes, by class name. A relationship whose target is not among them
  is reported as \<open>UnmappedClass\<close>.\<close>

type_synonym env = "(string \<times> mapper) list"

definition target_mapper :: "env \<Rightarrow> relationship \<Rightarrow> error + mapper" where
  "target_mapper env r =
     (case map_of env (r_target r) of
        None \<Rightarrow> Inl (UnmappedClass (r_target r))
      | Some m \<Rightarrow> Inr m)"

section \<open>Walkers\<close>

datatype walker_kind =
    SingleModelWalker
  | OneModelOnlyWalker
  | AlsoChildrenWalker
  | HandControlledWalker "(string \<times> string) list"

text \<open>
  \<open>w_history\<close> is the address of the walker's history list in the store of lists (the
  list is shared with the caller when the caller passed a non-empty one).
\<close>

record walker =
  w_kind :: walker_kind
  w_mapper :: mapper
  w_includes :: "string list option"
  w_excludes :: "string option list option"
  w_history :: nat

type_synonym store = "property list list"

definition deref :: "store \<Rightarrow> nat \<Rightarrow> property list" where
  "deref h a = (if a < length h then h ! a else [])"

text \<open>\<^verbatim>\<open>history or []\<close>: a fresh list unless a non-empty list is passed.\<close>

definition history_or_new :: "nat option \<Rightarrow> store \<Rightarrow> nat \<times> store" where
  "history_or_new history h =
     (case history of
        None \<Rightarrow> (length h, h @ [[]])
      | Some a \<Rightarrow> (if deref h a = [] then (length h, h @ [[]]) else (a, h)))"

text \<open>\<^verbatim>\<open>if includes and excludes: if set(includes).intersection(excludes): raise\<close>.\<close>

definition conflict :: "string list option \<Rightarrow> string option list option \<Rightarrow> bool" where
  "conflict includes excludes =
     (case includes of
        None \<Rightarrow> False
      | Some inc \<Rightarrow>
         (case excludes of
            None \<Rightarrow> False
          | Some exc \<Rightarrow> inc \<noteq> [] \<and> exc \<noteq> [] \<and> list_ex (\<lambda>x. Some x \<in> set exc) inc))"

text \<open>\<^verbatim>\<open>BaseModelWalker.__init__\<close> (and \<^verbatim>\<open>HandControlledWalker.__init__\<close>, whose
  \<^verbatim>\<open>walking\<close> list lives in the state of the traversal).\<close>

definition walker_init ::
  "walker_kind \<Rightarrow> mapper \<Rightarrow> string list option \<Rightarrow> string option list option \<Rightarrow> nat option
     \<Rightarrow> store \<Rightarrow> error + (walker \<times> store)" where
  "walker_init kind m includes excludes history h =
     (let (a, h') = history_or_new history h in
      if conflict includes excludes
      then Inl (InvalidStatus (Conflict (case includes of None \<Rightarrow> [] | Some i \<Rightarrow> i)
                                        (case excludes of None \<Rightarrow> [] | Some e \<Rightarrow> e)))
      else Inr (\<lparr>w_kind = kind, w_mapper = m, w_includes = includes, w_excludes = excludes,
                 w_history = a\<rparr>, h'))"

text \<open>\<^verbatim>\<open>get_children\<close> on a list and on a dictionary.\<close>

fun get_children_list :: "string \<Rightarrow> string \<Rightarrow> string list \<Rightarrow> error + string list" where
  "get_children_list name splitter [] = Inr []"
| "get_children_list name splitter (e # es) =
     (if startswith e (name @ splitter)
      then ebind (split_tail splitter e) (\<lambda>t.
           ebind (get_children_list name splitter es) (\<lambda>ts. Inr (t # ts)))
      else get_children_list name splitter es)"

fun get_children_dict :: "string \<Rightarrow> string \<Rightarrow> (string \<times> 'v) list \<Rightarrow> error + (string \<times> 'v) list" where
  "get_children_dict name splitter [] = Inr []"
| "get_children_dict name splitter ((k, v) # kvs) =
     (if startswith k (name @ splitter)
      then ebind (split_tail splitter k) (\<lambda>t.
           ebind (get_children_dict name splitter kvs) (\<lambda>ts. Inr ((t, v) # ts)))
      else get_children_dict name splitter kvs)"

text \<open>\<^verbatim>\<open>get_children(name, params, splitter, default)\<close> where \<open>params\<close> is a list or
  \<^verbatim>\<open>None\<close>.\<close>

definition get_children :: "string \<Rightarrow> string list option \<Rightarrow> string \<Rightarrow> string list option \<Rightarrow> error + string list option" where
  "get_children name params splitter dflt =
     (case params of
        None \<Rightarrow> Inr dflt
      | Some ps \<Rightarrow> ebind (get_children_list name splitter ps) (\<lambda>r. Inr (Some r)))"

text \<open>\<^verbatim>\<open>clone\<close>: the same class; the hand-controlled walker narrows its decisions with
  the default splitter.\<close>

definition clone ::
  "walker \<Rightarrow> string \<Rightarrow> mapper \<Rightarrow> string list option \<Rightarrow> string option list option \<Rightarrow> nat option
     \<Rightarrow> store \<Rightarrow> error + (walker \<times> store)" where
  "clone w name m includes excludes history h =
     (case w_kind w of
        HandControlledWalker decisions \<Rightarrow>
          ebind (get_children_dict name ''.'' decisions) (\<lambda>d.
            walker_init (HandControlledWalker d) m includes excludes history h)
      | kind \<Rightarrow> walker_init kind m includes excludes history h)"

text \<open>
  What \<^verbatim>\<open>iterate\<close> will do, in order.  The generators are lazy: a lookup in
  \<^verbatim>\<open>mapper._props\<close> or a failing decision raises only when the iteration reaches it.
\<close>

datatype item = Lookup string | WalkingLookup string | Yield property | Raise error

definition treat_relationship :: "(string \<times> string) list \<Rightarrow> relationship \<Rightarrow> item list" where
  "treat_relationship decisions r =
     (case map_of decisions (r_key r) of
        None \<Rightarrow> [Raise (KeyError (r_key r))]
      | Some decision \<Rightarrow>
          if decision = ''relationship'' then [Yield (RelationshipProperty r)]
          else if decision = ''foreignkey'' then map (\<lambda>c. WalkingLookup (c_name c)) (r_local_columns r)
          else [Raise (Exception decision)])"

definition iterate :: "walker \<Rightarrow> item list" where
  "iterate w =
     (let cols = map (\<lambda>c. Lookup (c_name c)) (m_columns (w_mapper w));
          rels = relationships (m_props (w_mapper w)) in
      case w_kind w of
        SingleModelWalker \<Rightarrow> cols
      | OneModelOnlyWalker \<Rightarrow> cols
      | AlsoChildrenWalker \<Rightarrow> cols @ map (\<lambda>r. Yield (RelationshipProperty r)) rels
      | HandControlledWalker decisions \<Rightarrow> cols @ concat (map (treat_relationship decisions) rels))"

text \<open>One step of \<^verbatim>\<open>iterate\<close>: the property produced and the \<^verbatim>\<open>walking\<close> list.\<close>

definition eval_item :: "mapper \<Rightarrow> string list \<Rightarrow> item \<Rightarrow> error + (property \<times> string list)" where
  "eval_item m walking it =
     (case it of
        Lookup n \<Rightarrow> ebind (props_lookup m n) (\<lambda>p. Inr (p, walking))
      | WalkingLookup n \<Rightarrow> ebind (props_lookup m n) (\<lambda>p. Inr (p, walking @ [n]))
      | Yield p \<Rightarrow> Inr (p, walking)
      | Raise e \<Rightarrow> Inl e)"

definition included :: "walker \<Rightarrow> property \<Rightarrow> bool" where
  "included w p =
     ((case w_includes w of None \<Rightarrow> True | Some inc \<Rightarrow> prop_key p \<in> set inc) \<and>
      (case w_excludes w of None \<Rightarrow> True | Some exc \<Rightarrow> Some (prop_key p) \<notin> set exc))"

definition any_foreign_keys :: "property \<Rightarrow> bool" where
  "any_foreign_keys p = list_ex c_foreign_keys (columns_or_empty p)"

fun is_column_or_relationship :: "property \<Rightarrow> bool" where
  "is_column_or_relationship (OtherProperty k) = False"
| "is_column_or_relationship p = True"

text \<open>The filter of \<^verbatim>\<open>walk\<close>, one walker class at a time; \<open>hist\<close> is the content of
  \<^verbatim>\<open>self.history\<close> when the generator reaches the property.\<close>

definition passes :: "walker \<Rightarrow> property list \<Rightarrow> string list \<Rightarrow> property \<Rightarrow> bool" where
  "passes w hist walking p =
     (case w_kind w of
        SingleModelWalker \<Rightarrow> included w p
      | OneModelOnlyWalker \<Rightarrow> included w p \<and> \<not> any_foreign_keys p
      | AlsoChildrenWalker \<Rightarrow>
          is_column_or_relationship p \<and> included w p \<and> p \<notin> set hist \<and> \<not> any_foreign_keys p
      | HandControlledWalker decisions \<Rightarrow>
          is_column_or_relationship p \<and> included w p \<and> p \<notin> set hist \<and>
          (prop_key p \<in> set walking \<or> \<not> any_foreign_keys p))"

text \<open>\<^verbatim>\<open>walk\<close> run to its end with nothing changing the history meanwhile.\<close>

fun walk_items :: "walker \<Rightarrow> property list \<Rightarrow> string list \<Rightarrow> item list \<Rightarrow> error + (property list \<times> string list)" where
  "walk_items w hist walking [] = Inr ([], walking)"
| "walk_items w hist walking (it # items) =
     ebind (eval_item (w_mapper w) walking it) (\<lambda>(p, wk).
     ebind (walk_items w hist wk items) (\<lambda>(ps, wk').
       Inr (if passes w hist wk p then p # ps else ps, wk')))"

definition walk :: "walker \<Rightarrow> store \<Rightarrow> string list \<Rightarrow> error + (property list \<times> string list)" where
  "walk w h walking = walk_items w (deref h (w_history w)) walking (iterate w)"

text \<open>\<^verbatim>\<open>SchemaFactory._detect_required\<close>.\<close>

definition needs_value :: "column \<Rightarrow> bool" where
  "needs_value c = (\<not> c_nullable c \<and> c_default c = None)"

definition required_keys :: "property list \<Rightarrow> string list" where
  "required_keys ps = map prop_key (filter (\<lambda>p. list_ex needs_value (columns_or_empty p)) ps)"

definition detect_required :: "walker \<Rightarrow> store \<Rightarrow> string list \<Rightarrow> error + (string list \<times> string list)" where
  "detect_required w h walking =
     ebind (walk w h walking) (\<lambda>(ps, wk). Inr (required_keys ps, wk))"

section \<open>Overrides\<close>

datatype ovalue = PopMarker | Value json

text \<open>\<^verbatim>\<open>CollectionForOverrides.overrides\<close>: \<open>params\<close> is the dictionary of the
  collection and \<open>nu\<close> its set \<^verbatim>\<open>not_used_keys\<close>, both returned updated.\<close>

fun overrides :: "(string \<times> ovalue) list \<Rightarrow> dict \<Rightarrow> string list \<Rightarrow> error + (dict \<times> string list)" where
  "overrides [] basedict nu = Inr (basedict, nu)"
| "overrides ((k, v) # kvs) basedict nu =
     (case (case v of PopMarker \<Rightarrow> dict_pop k basedict | Value j \<Rightarrow> Inr (dict_set k j basedict)) of
        Inl e \<Rightarrow> Inl e
      | Inr d \<Rightarrow> if k \<in> set nu then overrides kvs d (removeAll k nu) else Inl (KeyError k))"

section \<open>The schema factory\<close>

datatype restriction = String_max_length | Enum_one_of | Datetime_format | Date_format | Time_format

datatype policy = RelationDesicion | ComfortableDesicion

text \<open>The configuration of a \<^verbatim>\<open>SchemaFactory\<close>: its classifier's mapping, the class
  table the classes live in, the restriction dictionary, the child factory's splitter
  and flag, the decision policy, the reference mode and the walker class.\<close>

record config =
  classifier :: "(string \<times> string) list"
  class_mro :: class_table
  restriction_dict :: "(string \<times> restriction) list"
  splitter :: string
  bidirectional :: bool
  relation_decision :: policy
  reference_files :: bool
  walker_class :: walker_kind

text \<open>The restriction functions; \<open>ty\<close> is \<^verbatim>\<open>column.type\<close>.\<close>

definition apply_restriction :: "restriction \<Rightarrow> sqltype \<Rightarrow> dict \<Rightarrow> error + dict" where
  "apply_restriction fn ty sub =
     (case fn of
        String_max_length \<Rightarrow>
          (case length_attr ty of
             None \<Rightarrow> Inl (AttributeError ''length'')
           | Some None \<Rightarrow> Inr sub
           | Some (Some n) \<Rightarrow> Inr (dict_set ''maxLength'' (JInt n) sub))
      | Enum_one_of \<Rightarrow>
          (case enums ty of
             None \<Rightarrow> Inl (AttributeError ''enums'')
           | Some es \<Rightarrow> Inr (dict_set ''enum'' (JList (map JStr es)) sub))
      | Datetime_format \<Rightarrow> Inr (dict_set ''format'' (JStr ''date-time'') sub)
      | Date_format \<Rightarrow> Inr (dict_set ''format'' (JStr ''date'') sub)
      | Time_format \<Rightarrow> Inr (dict_set ''format'' (JStr ''time'') sub))"

text \<open>\<^verbatim>\<open>_add_restriction_if_found\<close>: the loop over \<^verbatim>\<open>itype.mro()\<close>.\<close>

fun add_restriction_if_found ::
  "(string \<times> restriction) list \<Rightarrow> sqltype \<Rightarrow> string list \<Rightarrow> dict \<Rightarrow> error + dict" where
  "add_restriction_if_found rd ty [] sub = Inr sub"
| "add_restriction_if_found rd ty (tcls # rest) sub =
     (if tcls = ''TypeEngine'' then Inr sub
      else (case map_of rd tcls of
              None \<Rightarrow> add_restriction_if_found rd ty rest sub
            | Some fn \<Rightarrow>
               (case apply_restriction fn ty sub of
                  Inl e \<Rightarrow> Inl e
                | Inr sub' \<Rightarrow> add_restriction_if_found rd ty rest sub')))"

text \<open>The branch \<^verbatim>\<open>if sub["type"] == "array"\<close>.  Comparing a length of \<^verbatim>\<open>None\<close> with
  \<^verbatim>\<open>0\<close> is a TypeError (Python 3).\<close>

definition array_items :: "config \<Rightarrow> sqltype \<Rightarrow> dict \<Rightarrow> error + dict" where
  "array_items cfg ty sub =
     (case item_type ty of
        None \<Rightarrow> Inr sub
      | Some it \<Rightarrow>
          ebind (classify (class_mro cfg) (classifier cfg) it) (\<lambda>(ic, item_type_str).
            if item_type_str = ''string''
            then (case length_attr it of
                    None \<Rightarrow> Inl (AttributeError ''length'')
                  | Some None \<Rightarrow> Inl TypeError
                  | Some (Some n) \<Rightarrow>
                      Inr (dict_set ''items''
                             (JObj (if n > 0
                                    then [(''type'', JStr item_type_str), (''maxLength'', JStr (show_int n))]
                                    else [(''type'', JStr item_type_str)])) sub))
            else Inr (dict_set ''items'' (JObj [(''type'', JStr item_type_str)]) sub)))"

text \<open>The body of \<^verbatim>\<open>for column in prop.columns\<close>: the field schema \<^verbatim>\<open>sub\<close> of one
  column, and the set of unused override keys.\<close>

definition build_column ::
  "config \<Rightarrow> (string \<times> ovalue) list \<Rightarrow> column \<Rightarrow> dict \<Rightarrow> string list \<Rightarrow> error + (dict \<times> string list)" where
  "build_column cfg params column opts nu =
     (case c_type column of
        TypeClass c \<Rightarrow> Inl TypeError
      | TypeInstance ty \<Rightarrow>
          ebind (classify (class_mro cfg) (classifier cfg) ty) (\<lambda>(itype, tname).
          ebind (if tname = ''array'' then array_items cfg ty [(''type'', JStr tname)]
                 else Inr [(''type'', JStr tname)]) (\<lambda>sub1.
          ebind (add_restriction_if_found (restriction_dict cfg) ty (mro (class_mro cfg) itype) sub1) (\<lambda>sub2.
          ebind (let sub3 = (case c_doc column of
                               None \<Rightarrow> sub2
                             | Some d \<Rightarrow> if d = [] then sub2
                                         else dict_set ''description'' (JStr (clean_doc d)) sub2)
                 in if c_name column \<in> fst ` set params then overrides params sub3 nu
                    else Inr (sub3, nu)) (\<lambda>(sub4, nu').
            Inr (if opts \<noteq> [] then dict_update sub4 opts else sub4, nu'))))))"

text \<open>The loop over \<^verbatim>\<open>prop.columns\<close>; the last argument is the variable \<^verbatim>\<open>sub\<close>.\<close>

fun build_columns ::
  "config \<Rightarrow> (string \<times> ovalue) list \<Rightarrow> dict \<Rightarrow> column list \<Rightarrow> dict \<Rightarrow> string list \<Rightarrow> dict
     \<Rightarrow> error + (dict \<times> string list \<times> dict)" where
  "build_columns cfg params opts [] ps nu sub = Inr (ps, nu, sub)"
| "build_columns cfg params opts (c # cs) ps nu sub =
     (case build_column cfg params c opts nu of
        Inl e \<Rightarrow> Inl e
      | Inr (sub', nu') \<Rightarrow>
          build_columns cfg params opts cs (dict_set (c_name c) (JObj sub') ps) nu' sub')"

text \<open>The branch \<^verbatim>\<open>action == FOREIGNKEY\<close>.\<close>

definition build_foreignkey ::
  "config \<Rightarrow> (string \<times> ovalue) list \<Rightarrow> property \<Rightarrow> dict \<Rightarrow> dict \<Rightarrow> string list
     \<Rightarrow> error + (dict \<times> string list)" where
  "build_foreignkey cfg params p opts ps nu =
     (case p of
        ColumnProperty key c cs \<Rightarrow>
          ebind (build_columns cfg params opts (c # cs) ps nu []) (\<lambda>(ps', nu', sub).
            Inr (dict_set key (JObj sub) ps', nu'))
      | _ \<Rightarrow> Inl (AttributeError ''columns''))"

section \<open>Decision policies\<close>

datatype action = RELATIONSHIP | FOREIGNKEY | Immediate json

text \<open>What a decision generator yields, in order; an \<open>Inl\<close> is an exception raised when
  the iteration reaches it.\<close>

type_synonym yielded = "error + (action \<times> property \<times> dict)"

definition relation_desicion :: "property \<Rightarrow> yielded list" where
  "relation_desicion p =
     (case p of
        RelationshipProperty r \<Rightarrow> [Inr (RELATIONSHIP, p, [])]
      | ColumnProperty k c cs \<Rightarrow> [Inr (FOREIGNKEY, p, [])]
      | OtherProperty k \<Rightarrow> [Inl TypeError])"

text \<open>\<^verbatim>\<open>for c in prop.local_columns: yield FOREIGNKEY, walker.mapper._props[c.name],
  {"relation": prop.key}\<close>.\<close>

definition flatten :: "mapper \<Rightarrow> relationship \<Rightarrow> yielded list" where
  "flatten m r =
     map (\<lambda>c. case props_lookup m (c_name c) of
                 Inl e \<Rightarrow> Inl e
               | Inr q \<Rightarrow> Inr (FOREIGNKEY, q, [(''relation'', JStr (r_key r))]))
         (r_local_columns r)"

text \<open>\<^verbatim>\<open>ComfortableDesicion.desicion\<close>; \<open>hist\<close> is the content of \<^verbatim>\<open>walker.history\<close>.
  \<^verbatim>\<open>local_columns\<close> and \<^verbatim>\<open>remote_side\<close> are sets in the source and are compared as
  sets.\<close>

definition comfortable_desicion :: "walker \<Rightarrow> property list \<Rightarrow> property \<Rightarrow> bool \<Rightarrow> yielded list" where
  "comfortable_desicion w hist p toplevel =
     (case p of
        RelationshipProperty r \<Rightarrow>
          (case r_direction r of
             MANYTOONE \<Rightarrow>
               (if toplevel then flatten (w_mapper w) r
                else (case hist of
                        [] \<Rightarrow> [Inl IndexError]
                      | rp # rest \<Rightarrow>
                          (case rp of
                             RelationshipProperty rr \<Rightarrow>
                               if set (r_local_columns r) \<noteq> set (r_remote_side rr)
                               then flatten (w_mapper w) r
                               else []
                           | _ \<Rightarrow> [Inl (AttributeError ''remote_side'')])))
           | MANYTOMANY \<Rightarrow>
               [Inr (Immediate (JObj [(''type'', JStr ''array''),
                                      (''items'', JObj [(''type'', JStr ''string'')])]), p, [])]
           | ONETOMANY \<Rightarrow> [Inr (RELATIONSHIP, p, [])])
      | ColumnProperty k c cs \<Rightarrow> [Inr (FOREIGNKEY, p, [])]
      | OtherProperty k \<Rightarrow> [Inl TypeError])"

definition desicion :: "config \<Rightarrow> walker \<Rightarrow> store \<Rightarrow> property \<Rightarrow> bool \<Rightarrow> yielded list" where
  "desicion cfg w h p toplevel =
     (case relation_decision cfg of
        RelationDesicion \<Rightarrow> relation_desicion p
      | ComfortableDesicion \<Rightarrow> comfortable_desicion w (deref h (w_history w)) p toplevel)"

section \<open>The child factory\<close>

text \<open>\<^verbatim>\<open>ChildFactory.default_excludes\<close>.\<close>

definition default_excludes :: "relationship \<Rightarrow> string option list" where
  "default_excludes r = [r_back_populates r, r_backref r]"

text \<open>\<^verbatim>\<open>ChildFactory.child_walker\<close>.\<close>

definition child_walker ::
  "config \<Rightarrow> env \<Rightarrow> relationship \<Rightarrow> walker \<Rightarrow> nat option \<Rightarrow> store \<Rightarrow> error + (walker \<times> store)" where
  "child_walker cfg env r w history h =
     ebind (get_children (r_key r) (w_includes w) (splitter cfg) (Some [])) (\<lambda>exc0.
       let excludes = map Some (case exc0 of None \<Rightarrow> [] | Some l \<Rightarrow> l) @
                      (if bidirectional cfg then [] else default_excludes r) in
       ebind (get_children (r_key r) (w_includes w) (splitter cfg) None) (\<lambda>includes.
       ebind (target_mapper env r) (\<lambda>m.
         clone w (r_key r) m includes (Some excludes) history h)))"

text \<open>\<^verbatim>\<open>ChildFactory.child_overrides\<close>: the dictionary of the child collection (its
  \<^verbatim>\<open>not_used_keys\<close> are the keys of that dictionary).\<close>

definition child_overrides :: "config \<Rightarrow> relationship \<Rightarrow> (string \<times> ovalue) list \<Rightarrow> error + (string \<times> ovalue) list" where
  "child_overrides cfg r params = get_children_dict (r_key r) (splitter cfg) params"

text \<open>The shape \<^verbatim>\<open>ChildFactory.child_schema\<close> gives the subschema.\<close>

definition child_schema :: "relationship \<Rightarrow> dict \<Rightarrow> dict" where
  "child_schema r subschema =
     (if r_direction r = ONETOMANY
      then [(''type'', JStr ''array''), (''items'', JObj subschema)]
      else [(''type'', JStr ''object''), (''properties'', JObj subschema)])"

text \<open>\<^verbatim>\<open>depth and depth - 1\<close> and the test \<^verbatim>\<open>depth is not None and depth <= 0\<close>.\<close>

definition child_depth :: "int option \<Rightarrow> int option" where
  "child_depth depth = (case depth of None \<Rightarrow> None | Some d \<Rightarrow> if d = 0 then Some 0 else Some (d - 1))"

definition depth_exhausted :: "int option \<Rightarrow> bool" where
  "depth_exhausted depth = (case depth of None \<Rightarrow> False | Some d \<Rightarrow> d \<le> 0)"

section \<open>Building the properties\<close>

text \<open>
  The state of one \<^verbatim>\<open>_build_properties\<close> call: the store of history lists, the root
  schema (mutated when definitions are registered), the unused keys of the call's
  override collection, the \<^verbatim>\<open>walking\<close> list of the call's walker, and the mapping
  under construction.
\<close>

record bstate =
  heap :: store
  root_schema :: dict
  not_used_keys :: "string list"
  walking :: "string list"
  prop_schema :: dict

text \<open>The arguments of one \<^verbatim>\<open>_build_properties\<close> call; \<open>f_history\<close> is the address of
  the list \<^verbatim>\<open>history\<close>.\<close>

record frame =
  f_walker :: walker
  f_overrides :: "(string \<times> ovalue) list"
  f_depth :: "int option"
  f_history :: nat
  f_toplevel :: bool

text \<open>\<^verbatim>\<open>_add_property_with_reference\<close>.  The value registered under \<^verbatim>\<open>definitions\<close> is
  the object that receives \<^verbatim>\<open>required\<close> afterwards, so the registered value has it.  The
  result is the root schema, the current schema and the walker's \<^verbatim>\<open>walking\<close> list.\<close>

definition add_property_with_reference ::
  "config \<Rightarrow> mapper \<Rightarrow> walker \<Rightarrow> store \<Rightarrow> string list \<Rightarrow> dict \<Rightarrow> dict \<Rightarrow> relationship \<Rightarrow> dict
     \<Rightarrow> error + (dict \<times> dict \<times> string list)" where
  "add_property_with_reference cfg tm w h wk root current r val =
     (if reference_files cfg
      then
        (let ref = JObj [(''$ref'', JStr (m_table tm @ ''.json#''))];
             current' =
               (if r_direction r = MANYTOONE \<or> r_direction r = MANYTOMANY \<or>
                   map_of val ''type'' = Some (JStr ''array'')
                then dict_set (r_key r) (JObj [(''type'', JStr ''array''), (''items'', ref)]) current
                else dict_set (r_key r) ref current)
         in ebind (detect_required w h wk) (\<lambda>(req, wk'). Inr (root, current', wk')))
      else
        (let defs = (case map_of root ''definitions'' of Some (JObj d) \<Rightarrow> d | _ \<Rightarrow> []);
             ref = JObj [(''$ref'', JStr (''#/definitions/'' @ m_class tm))];
             is_object = (map_of val ''type'' = Some (JStr ''object''));
             current' =
               (if is_object then dict_set (r_key r) ref current
                else dict_set (r_key r) (JObj [(''type'', JStr ''array''), (''items'', ref)]) current)
         in ebind (if is_object then Inr val
                   else (case map_of val ''items'' of
                           None \<Rightarrow> Inl (KeyError ''items'')
                         | Some items \<Rightarrow>
                             Inr (dict_set ''properties'' items
                                    (AList.delete ''items'' (dict_set ''type'' (JStr ''object'') val))))) (\<lambda>val'.
            ebind (detect_required w h wk) (\<lambda>(req, wk').
              Inr (dict_set ''definitions''
                     (JObj (dict_set (m_class tm)
                              (JObj (dict_set ''required'' (JList (map JStr req)) val')) defs)) root,
                   current', wk')))))"

text \<open>The start of the branch \<^verbatim>\<open>action == RELATIONSHIP\<close>: the property is appended to
  the history, then the child walker and the child overrides are made.  The result is
  the frame and the initial state of the recursive call.\<close>

definition enter_relationship ::
  "config \<Rightarrow> env \<Rightarrow> frame \<Rightarrow> property \<Rightarrow> bstate \<Rightarrow> error + (frame \<times> bstate)" where
  "enter_relationship cfg env fr p st =
     (let a = f_history fr;
          h1 = (heap st)[a := deref (heap st) a @ [p]]
      in case p of
           RelationshipProperty r \<Rightarrow>
             ebind (child_walker cfg env r (f_walker fr) (Some a) h1) (\<lambda>(subwalker, h2).
             ebind (child_overrides cfg r (f_overrides fr)) (\<lambda>suboverrides.
               Inr (\<lparr>f_walker = subwalker, f_overrides = suboverrides,
                     f_depth = child_depth (f_depth fr), f_history = a, f_toplevel = False\<rparr>,
                    \<lparr>heap = h2, root_schema = root_schema st, not_used_keys = map fst suboverrides,
                     walking = [], prop_schema = []\<rparr>)))
         | _ \<Rightarrow> Inl (AttributeError ''mapper''))"

text \<open>The end of that branch, after the recursive call returned in state \<open>cst\<close>: the
  subschema is shaped and attached to the parent's mapping.\<close>

definition leave_relationship ::
  "config \<Rightarrow> env \<Rightarrow> frame \<Rightarrow> property \<Rightarrow> bstate \<Rightarrow> bstate \<Rightarrow> error + bstate" where
  "leave_relationship cfg env fr p st cst =
     (case p of
        RelationshipProperty r \<Rightarrow>
          ebind (target_mapper env r) (\<lambda>tm.
          ebind (add_property_with_reference cfg tm (f_walker fr) (heap cst) (walking st)
                   (root_schema cst) (prop_schema st) r (child_schema r (prop_schema cst)))
            (\<lambda>(root', current', wk').
               Inr (st\<lparr>heap := heap cst, root_schema := root', walking := wk',
                       prop_schema := current'\<rparr>)))
      | _ \<Rightarrow> Inl (AttributeError ''mapper''))"

text \<open>
  The two nested loops of \<^verbatim>\<open>_build_properties\<close>: \<open>acts\<close> is what is left of the
  current decision generator and \<open>items\<close> what is left of the walker's iteration.  The
  recursion into a related model takes one unit of \<open>fuel\<close>; the result \<open>None\<close> is a
  recursion that did not end within the fuel.
\<close>

fun build_loop ::
  "nat \<Rightarrow> config \<Rightarrow> env \<Rightarrow> frame \<Rightarrow> yielded list \<Rightarrow> item list \<Rightarrow> bstate \<Rightarrow> (error + bstate) option" where
  "build_loop fuel cfg env fr [] [] st = Some (Inr st)"
| "build_loop fuel cfg env fr [] (it # items) st =
     (case eval_item (w_mapper (f_walker fr)) (walking st) it of
        Inl e \<Rightarrow> Some (Inl e)
      | Inr (p, wk) \<Rightarrow>
          (if passes (f_walker fr) (deref (heap st) (w_history (f_walker fr))) wk p
           then build_loop fuel cfg env fr
                  (desicion cfg (f_walker fr) (heap st) p (f_toplevel fr)) items (st\<lparr>walking := wk\<rparr>)
           else build_loop fuel cfg env fr [] items (st\<lparr>walking := wk\<rparr>)))"
| "build_loop fuel cfg env fr (Inl e # acts) items st = Some (Inl e)"
| "build_loop fuel cfg env fr (Inr (FOREIGNKEY, p, opts) # acts) items st =
     (case build_foreignkey cfg (f_overrides fr) p opts (prop_schema st) (not_used_keys st) of
        Inl e \<Rightarrow> Some (Inl e)
      | Inr (ps, nu) \<Rightarrow>
          build_loop fuel cfg env fr acts items (st\<lparr>not_used_keys := nu, prop_schema := ps\<rparr>))"
| "build_loop fuel cfg env fr (Inr (Immediate j, p, opts) # acts) items st =
     build_loop fuel cfg env fr acts items (st\<lparr>prop_schema := dict_set (prop_key p) j (prop_schema st)\<rparr>)"
| "build_loop fuel cfg env fr (Inr (RELATIONSHIP, p, opts) # acts) items st =
     (case enter_relationship cfg env fr p st of
        Inl e \<Rightarrow> Some (Inl e)
      | Inr (cfr, cst) \<Rightarrow>
          (case (if depth_exhausted (f_depth cfr) then Some (Inr cst)
                 else (case fuel of
                         0 \<Rightarrow> None
                       | Suc n \<Rightarrow> build_loop n cfg env cfr [] (iterate (f_walker cfr)) cst)) of
             None \<Rightarrow> None
           | Some (Inl e) \<Rightarrow> Some (Inl e)
           | Some (Inr cst') \<Rightarrow>
               (case leave_relationship cfg env fr p st cst' of
                  Inl e \<Rightarrow> Some (Inl e)
                | Inr st' \<Rightarrow> build_loop fuel cfg env fr acts items st')))"

text \<open>\<^verbatim>\<open>_build_properties\<close> as \<^verbatim>\<open>__call__\<close> calls it: no history is passed, so a new
  list is made, and the call is at top level.\<close>

definition build_properties ::
  "nat \<Rightarrow> config \<Rightarrow> env \<Rightarrow> walker \<Rightarrow> (string \<times> ovalue) list \<Rightarrow> int option \<Rightarrow> bstate
     \<Rightarrow> (error + bstate) option" where
  "build_properties fuel cfg env w params depth st =
     (if depth_exhausted depth then Some (Inr (st\<lparr>prop_schema := []\<rparr>))
      else build_loop fuel cfg env
             \<lparr>f_walker = w, f_overrides = params, f_depth = depth,
              f_history = length (heap st), f_toplevel = True\<rparr>
             [] (iterate w) (st\<lparr>heap := heap st @ [[]], prop_schema := []\<rparr>))"

text \<open>What \<^verbatim>\<open>__call__\<close> does after the properties are built, in state \<open>st\<close>.\<close>

definition finish :: "mapper \<Rightarrow> walker \<Rightarrow> bstate \<Rightarrow> error + (string \<times> dict)" where
  "finish model w st =
     (let schema1 = dict_set ''properties'' (JObj (prop_schema st)) (root_schema st) in
      if not_used_keys st \<noteq> [] then Inl (InvalidStatus (InvalidOverrides (not_used_keys st)))
      else
        (let schema2 = (case m_doc model of
                          None \<Rightarrow> schema1
                        | Some d \<Rightarrow> if d = [] then schema1
                                    else dict_set ''description'' (JStr (clean_doc d)) schema1)
         in ebind (detect_required w (heap st) (walking st)) (\<lambda>(required, wk).
              Inr (m_tablename model,
                   if required \<noteq> [] then dict_set ''required'' (JList (map JStr required)) schema2
                   else schema2))))"

text \<open>The state in which \<^verbatim>\<open>__call__\<close> calls \<^verbatim>\<open>_build_properties\<close>: the schema holds
  its first three keys and no override key is used yet.\<close>

definition initial_state :: "mapper \<Rightarrow> (string \<times> ovalue) list \<Rightarrow> store \<Rightarrow> bstate" where
  "initial_state model params h =
     \<lparr>heap = h,
      root_schema = [(''$schema'', JStr ''http://json-schema.org/draft-04/schema#''),
                     (''title'', JStr (m_class model)),
                     (''type'', JStr ''object'')],
      not_used_keys = map fst params, walking = [], prop_schema = []\<rparr>"

text \<open>\<^verbatim>\<open>SchemaFactory.__call__\<close>: the name and the schema of the \<^verbatim>\<open>JSONSchema\<close> it
  returns.\<close>

definition generate ::
  "nat \<Rightarrow> config \<Rightarrow> env \<Rightarrow> mapper \<Rightarrow> string list option \<Rightarrow> string option list option
     \<Rightarrow> (string \<times> ovalue) list \<Rightarrow> int option \<Rightarrow> (error + (string \<times> dict)) option" where
  "generate fuel cfg env model includes excludes params depth =
     (case walker_init (walker_class cfg) model includes excludes None [] of
        Inl e \<Rightarrow> Some (Inl e)
      | Inr (w, h) \<Rightarrow>
          (case build_properties fuel cfg env w params depth (initial_state model params h) of
             None \<Rightarrow> None
           | Some (Inl e) \<Rightarrow> Some (Inl e)
           | Some (Inr st) \<Rightarrow> Some (finish model w st)))"

text \<open>The content of the list \<^verbatim>\<open>history\<close> of the top-level \<^verbatim>\<open>_build_properties\<close>
  call when \<^verbatim>\<open>__call__\<close> has built the properties: the relationship properties that were
  descended into, in the order of the descents (the list is appended to before every
  recursion and never popped).\<close>

definition descent_log ::
  "nat \<Rightarrow> config \<Rightarrow> env \<Rightarrow> mapper \<Rightarrow> string list option \<Rightarrow> string option list option
     \<Rightarrow> (string \<times> ovalue) list \<Rightarrow> int option \<Rightarrow> (error + property list) option" where
  "descent_log fuel cfg env model includes excludes params depth =
     (case walker_init (walker_class cfg) model includes excludes None [] of
        Inl e \<Rightarrow> Some (Inl e)
      | Inr (w, h) \<Rightarrow>
          (case build_properties fuel cfg env w params depth (initial_state model params h) of
             None \<Rightarrow> None
           | Some (Inl e) \<Rightarrow> Some (Inl e)
           | Some (Inr st) \<Rightarrow> Some (Inr (deref (heap st) (length h)))))"

section \<open>Invariants of the traversal\<close>

text \<open>All properties of the mapped classes.\<close>

definition all_props :: "env \<Rightarrow> property list" where
  "all_props env = concat (map (\<lambda>nm. m_props (snd nm)) env)"

text \<open>The walker classes whose \<^verbatim>\<open>walk\<close> tests \<^verbatim>\<open>prop not in self.history\<close>.\<close>

definition guarded :: "walker_kind \<Rightarrow> bool" where
  "guarded k = (case k of AlsoChildrenWalker \<Rightarrow> True | HandControlledWalker d \<Rightarrow> True | _ \<Rightarrow> False)"

fun item_ok :: "mapper \<Rightarrow> item \<Rightarrow> bool" where
  "item_ok m (Yield p) = (p \<in> set (m_props m))"
| "item_ok m it = True"

text \<open>The frame of a recursive \<^verbatim>\<open>_build_properties\<close> call: its walker was cloned with
  the caller's non-empty history list, which it therefore shares, over a mapped class.\<close>

definition child_frame :: "env \<Rightarrow> frame \<Rightarrow> bstate \<Rightarrow> bool" where
  "child_frame env fr st =
     (guarded (w_kind (f_walker fr)) \<and> w_history (f_walker fr) = f_history fr \<and>
      f_history fr < length (heap st) \<and> heap st ! f_history fr \<noteq> [] \<and>
      w_mapper (f_walker fr) \<in> snd ` set env)"

text \<open>The pending decisions of such a call hold a relationship action only alone, for a
  property that is not in the history.\<close>

definition acts_ok :: "property set \<Rightarrow> property list \<Rightarrow> yielded list \<Rightarrow> bool" where
  "acts_ok U hist acts =
     ((\<forall>p opts. Inr (RELATIONSHIP, p, opts) \<notin> set acts) \<or>
      (\<exists>p opts. acts = [Inr (RELATIONSHIP, p, opts)] \<and> p \<in> U \<and> p \<notin> set hist))"

text \<open>From state \<open>st\<close> to state \<open>st'\<close> the history list at address \<open>a\<close> was only appended
  to, with properties that were not in it and that differ from one another.\<close>

definition history_extended :: "nat \<Rightarrow> bstate \<Rightarrow> bstate \<Rightarrow> bool" where
  "history_extended a st st' =
     (length (heap st') = length (heap st) \<and>
      (\<exists>ext. heap st' ! a = heap st ! a @ ext \<and> distinct ext \<and> set ext \<inter> set (heap st ! a) = {}))"

text \<open>The descents of one \<^verbatim>\<open>_build_properties\<close> call, read off its run from the state
  \<open>st\<close> on: one segment for each relationship action the call itself executes, made of
  the property \<open>p\<close> it descends into and of the properties that the recursive call below
  appends to the history, which are those descended into at the deeper levels, in order.
  The function follows \<open>build_loop\<close> equation by equation.\<close>

fun descents ::
  "nat \<Rightarrow> config \<Rightarrow> env \<Rightarrow> frame \<Rightarrow> yielded list \<Rightarrow> item list \<Rightarrow> bstate
     \<Rightarrow> (property \<times> property list) list" where
  "descents fuel cfg env fr [] [] st = []"
| "descents fuel cfg env fr [] (it # items) st =
     (case eval_item (w_mapper (f_walker fr)) (walking st) it of
        Inl e \<Rightarrow> []
      | Inr (p, wk) \<Rightarrow>
          (if passes (f_walker fr) (deref (heap st) (w_history (f_walker fr))) wk p
           then descents fuel cfg env fr
                  (desicion cfg (f_walker fr) (heap st) p (f_toplevel fr)) items (st\<lparr>walking := wk\<rparr>)
           else descents fuel cfg env fr [] items (st\<lparr>walking := wk\<rparr>)))"
| "descents fuel cfg env fr (Inl e # acts) items st = []"
| "descents fuel cfg env fr (Inr (FOREIGNKEY, p, opts) # acts) items st =
     (case build_foreignkey cfg (f_overrides fr) p opts (prop_schema st) (not_used_keys st) of
        Inl e \<Rightarrow> []
      | Inr (ps, nu) \<Rightarrow>
          descents fuel cfg env fr acts items (st\<lparr>not_used_keys := nu, prop_schema := ps\<rparr>))"
| "descents fuel cfg env fr (Inr (Immediate j, p, opts) # acts) items st =
     descents fuel cfg env fr acts items (st\<lparr>prop_schema := dict_set (prop_key p) j (prop_schema st)\<rparr>)"
| "descents fuel cfg env fr (Inr (RELATIONSHIP, p, opts) # acts) items st =
     (case enter_relationship cfg env fr p st of
        Inl e \<Rightarrow> []
      | Inr (cfr, cst) \<Rightarrow>
          (case (if depth_exhausted (f_depth cfr) then Some (Inr cst)
                 else (case fuel of
                         0 \<Rightarrow> None
                       | Suc n \<Rightarrow> build_loop n cfg env cfr [] (iterate (f_walker cfr)) cst)) of
             Some (Inr cst') \<Rightarrow>
               (p, drop (length (deref (heap cst) (f_history cfr))) (deref (heap cst') (f_history cfr))) #
               (case leave_relationship cfg env fr p st cst' of
                  Inl e \<Rightarrow> []
                | Inr st' \<Rightarrow> descents fuel cfg env fr acts items st')
           | _ \<Rightarrow> [(p, [])]))"

text \<open>The descents of the top-level call of a generation call: the segments of
  \<^verbatim>\<open>_build_properties\<close> as \<^verbatim>\<open>__call__\<close> calls it.\<close>

definition descent_segments ::
  "nat \<Rightarrow> config \<Rightarrow> env \<Rightarrow> mapper \<Rightarrow> string list option \<Rightarrow> string option list option
     \<Rightarrow> (string \<times> ovalue) list \<Rightarrow> int option \<Rightarrow> (property \<times> property list) list" where
  "descent_segments fuel cfg env model includes excludes params depth =
     (case walker_init (walker_class cfg) model includes excludes None [] of
        Inl e \<Rightarrow> []
      | Inr (w, h) \<Rightarrow>
          (if depth_exhausted depth then []
           else descents fuel cfg env
                  \<lparr>f_walker = w, f_overrides = params, f_depth = depth,
                   f_history = length h, f_toplevel = True\<rparr>
                  [] (iterate w) ((initial_state model params h)\<lparr>heap := h @ [[]], prop_schema := []\<rparr>)))"

text \<open>\<open>segments_log\<close> is the history that segments leave.  \<open>descents_fresh hist segs\<close> says,
  for a history \<open>hist\<close> before the first segment, that the properties every segment has
  from the deeper levels differ from one another and from all that was in the history
  before them, the segment's own \<open>p\<close> included.\<close>

definition segments_log :: "(property \<times> property list) list \<Rightarrow> property list" where
  "segments_log segs = concat (map (\<lambda>(p, ext). p # ext) segs)"

fun descents_fresh :: "property list \<Rightarrow> (property \<times> property list) list \<Rightarrow> bool" where
  "descents_fresh hist [] = True"
| "descents_fresh hist ((p, ext) # segs) =
     (distinct ext \<and> set ext \<inter> set (hist @ [p]) = {} \<and> descents_fresh (hist @ p # ext) segs)"

text \<open>From state \<open>st\<close> to state \<open>st'\<close> the history list at address \<open>a\<close> was appended to
  by the segments \<open>segs\<close>, and these are fresh.\<close>

definition top_level_extended ::
  "nat \<Rightarrow> bstate \<Rightarrow> bstate \<Rightarrow> (property \<times> property list) list \<Rightarrow> bool" where
  "top_level_extended a st st' segs =
     (length (heap st') = length (heap st) \<and> heap st' ! a = heap st ! a @ segments_log segs \<and>
      descents_fresh (heap st ! a) segs)"

section \<open>Example models\<close>

definition ex_classes :: class_table where
  "ex_classes =
     [(''Integer'', [''TypeEngine'', ''object'']),
      (''String'', [''Concatenable'', ''TypeEngine'', ''object'']),
      (''Outer'', [''TypeDecorator'', ''TypeEngine'', ''object'']),
      (''Inner'', [''TypeDecorator'', ''TypeEngine'', ''object''])]"

definition ex_mapping :: "(string \<times> string) list" where
  "ex_mapping = [(''String'', ''string''), (''Integer'', ''integer''), (''Concatenable'', ''array'')]"

definition ex_config :: config where
  "ex_config =
     \<lparr>classifier = ex_mapping, class_mro = ex_classes,
      restriction_dict = [(''String'', String_max_length)],
      splitter = ''.'', bidirectional = False, relation_decision = RelationDesicion,
      reference_files = False, walker_class = AlsoChildrenWalker\<rparr>"

definition ex_integer :: sqltype where
  "ex_integer = SqlType ''Integer'' None None None None"

definition ex_string50 :: sqltype where
  "ex_string50 = SqlType ''String'' None (Some (Some 50)) None None"

definition mk_column :: "string \<Rightarrow> string \<Rightarrow> sqltype \<Rightarrow> bool \<Rightarrow> bool \<Rightarrow> column" where
  "mk_column t n ty nullable fk =
     \<lparr>c_table = t, c_name = n, c_type = TypeInstance ty, c_nullable = nullable,
      c_default = None, c_foreign_keys = fk, c_doc = None\<rparr>"

definition mk_mapper :: "string \<Rightarrow> column list \<Rightarrow> property list \<Rightarrow> mapper" where
  "mk_mapper n cols ps =
     \<lparr>m_class = n, m_table = n, m_tablename = n, m_doc = None, m_columns = cols, m_props = ps\<rparr>"

definition mk_relationship ::
  "string \<Rightarrow> string \<Rightarrow> string \<Rightarrow> direction \<Rightarrow> column list \<Rightarrow> column list \<Rightarrow> relationship" where
  "mk_relationship owner k target d local remote =
     \<lparr>r_owner = owner, r_key = k, r_target = target, r_direction = d, r_local_columns = local,
      r_remote_side = remote, r_back_populates = None, r_backref = None\<rparr>"

definition mk_walker :: "walker_kind \<Rightarrow> mapper \<Rightarrow> string list option \<Rightarrow> string option list option \<Rightarrow> nat \<Rightarrow> walker" where
  "mk_walker kind m includes excludes a =
     \<lparr>w_kind = kind, w_mapper = m, w_includes = includes, w_excludes = excludes, w_history = a\<rparr>"

text \<open>A class \<^verbatim>\<open>User\<close> with a non-nullable integer \<^verbatim>\<open>id\<close> and a nullable
  \<^verbatim>\<open>name\<close> of at most 50 characters.\<close>

definition ex_user :: mapper where
  "ex_user =
     mk_mapper ''User''
       [mk_column ''User'' ''id'' ex_integer False False,
        mk_column ''User'' ''name'' ex_string50 True False]
       [ColumnProperty ''id'' (mk_column ''User'' ''id'' ex_integer False False) [],
        ColumnProperty ''name'' (mk_column ''User'' ''name'' ex_string50 True False) []]"

definition ex_override :: json where
  "ex_override = JObj [(''type'', JStr ''string''), (''maxLength'', JInt 10)]"

text \<open>Two type decorators, one wrapping the other, and a mapping with an entry for the
  inner decorator's class.\<close>

definition ex_inner :: sqltype where
  "ex_inner = SqlType ''Inner'' (Some ex_integer) None None None"

definition ex_outer :: sqltype where
  "ex_outer = SqlType ''Outer'' (Some ex_inner) None None None"

definition ex_mapping_inner :: "(string \<times> string) list" where
  "ex_mapping_inner = (''Inner'', ''string'') # ex_mapping"

text \<open>A column property over two columns, of which only the first is non-nullable.\<close>

definition ex_pair :: mapper where
  "ex_pair =
     mk_mapper ''Pair''
       [mk_column ''Pair'' ''code'' ex_integer False False]
       [ColumnProperty ''code'' (mk_column ''Pair'' ''code'' ex_integer False False)
          [mk_column ''Base'' ''code'' ex_integer True False]]"

text \<open>Three classes: \<^verbatim>\<open>A\<close> has the one-to-many relationships \<^verbatim>\<open>bs\<close> to \<^verbatim>\<open>B\<close> and \<^verbatim>\<open>cs\<close>
  to \<^verbatim>\<open>C\<close>, and \<^verbatim>\<open>B\<close> has the many-to-one relationship \<^verbatim>\<open>a\<close> back to \<^verbatim>\<open>A\<close>; no
  back reference is declared.\<close>

definition ex_bs :: relationship where
  "ex_bs = mk_relationship ''A'' ''bs'' ''B'' ONETOMANY [] []"

definition ex_cs :: relationship where
  "ex_cs = mk_relationship ''A'' ''cs'' ''C'' ONETOMANY [] []"

definition ex_b_a :: relationship where
  "ex_b_a = mk_relationship ''B'' ''a'' ''A'' MANYTOONE [] []"

definition ex_a :: mapper where
  "ex_a = mk_mapper ''A'' [mk_column ''A'' ''id'' ex_integer False False]
            [ColumnProperty ''id'' (mk_column ''A'' ''id'' ex_integer False False) [],
             RelationshipProperty ex_bs, RelationshipProperty ex_cs]"

definition ex_b :: mapper where
  "ex_b = mk_mapper ''B'' [mk_column ''B'' ''id'' ex_integer False False]
            [ColumnProperty ''id'' (mk_column ''B'' ''id'' ex_integer False False) [],
             RelationshipProperty ex_b_a]"

definition ex_c :: mapper where
  "ex_c = mk_mapper ''C'' [mk_column ''C'' ''id'' ex_integer False False]
            [ColumnProperty ''id'' (mk_column ''C'' ''id'' ex_integer False False) []]"

definition ex_cycle_env :: env where
  "ex_cycle_env = [(''A'', ex_a), (''B'', ex_b), (''C'', ex_c)]"

text \<open>The frame and the state of the recursive call for \<^verbatim>\<open>B\<close>, entered from the top
  level through \<^verbatim>\<open>bs\<close>.\<close>

definition ex_frame_b :: frame where
  "ex_frame_b =
     \<lparr>f_walker = mk_walker AlsoChildrenWalker ex_b None (Some [None, None]) 1, f_overrides = [],
      f_depth = None, f_history = 1, f_toplevel = False\<rparr>"

definition ex_state_b :: bstate where
  "ex_state_b = (initial_state ex_a [] [[], [RelationshipProperty ex_bs]])"

text \<open>The frame and a state of the recursive call for \<^verbatim>\<open>C\<close>, entered from the top
  level through \<^verbatim>\<open>cs\<close> when \<^verbatim>\<open>cs\<close> was already descended into below \<^verbatim>\<open>bs\<close>.\<close>

definition ex_frame_c :: frame where
  "ex_frame_c =
     \<lparr>f_walker = mk_walker AlsoChildrenWalker ex_c None (Some [None, None]) 1, f_overrides = [],
      f_depth = None, f_history = 1, f_toplevel = False\<rparr>"

definition ex_state_c :: bstate where
  "ex_state_c =
     initial_state ex_a []
       [[], [RelationshipProperty ex_bs, RelationshipProperty ex_b_a,
             RelationshipProperty ex_cs, RelationshipProperty ex_cs]]"

definition ex_frame_a :: frame where
  "ex_frame_a =
     \<lparr>f_walker = mk_walker AlsoChildrenWalker ex_a None None 0, f_overrides = [],
      f_depth = None, f_history = 1, f_toplevel = True\<rparr>"

text \<open>A shop with clerks and items; each clerk and each item has the foreign key
  \<^verbatim>\<open>shop_id\<close> and a many-to-one relationship \<^verbatim>\<open>shop\<close> over it.\<close>

definition ex_comfortable :: config where
  "ex_comfortable = ex_config\<lparr>relation_decision := ComfortableDesicion\<rparr>"

definition ex_staff :: relationship where
  "ex_staff = mk_relationship ''Shop'' ''staff'' ''Clerk'' ONETOMANY
                [mk_column ''Shop'' ''id'' ex_integer False False]
                [mk_column ''Clerk'' ''shop_id'' ex_integer True True]"

definition ex_items :: relationship where
  "ex_items = mk_relationship ''Shop'' ''items'' ''Item'' ONETOMANY
                [mk_column ''Shop'' ''id'' ex_integer False False]
                [mk_column ''Item'' ''shop_id'' ex_integer True True]"

definition ex_clerk_shop :: relationship where
  "ex_clerk_shop = mk_relationship ''Clerk'' ''shop'' ''Shop'' MANYTOONE
                     [mk_column ''Clerk'' ''shop_id'' ex_integer True True]
                     [mk_column ''Shop'' ''id'' ex_integer False False]"

definition ex_item_shop :: relationship where
  "ex_item_shop = mk_relationship ''Item'' ''shop'' ''Shop'' MANYTOONE
                    [mk_column ''Item'' ''shop_id'' ex_integer True True]
                    [mk_column ''Shop'' ''id'' ex_integer False False]"

definition ex_shop :: mapper where
  "ex_shop = mk_mapper ''Shop'' [mk_column ''Shop'' ''id'' ex_integer False False]
               [ColumnProperty ''id'' (mk_column ''Shop'' ''id'' ex_integer False False) [],
                RelationshipProperty ex_staff, RelationshipProperty ex_items]"

definition ex_clerk :: mapper where
  "ex_clerk = mk_mapper ''Clerk''
                [mk_column ''Clerk'' ''id'' ex_integer False False,
                 mk_column ''Clerk'' ''shop_id'' ex_integer True True]
                [ColumnProperty ''id'' (mk_column ''Clerk'' ''id'' ex_integer False False) [],
                 ColumnProperty ''shop_id'' (mk_column ''Clerk'' ''shop_id'' ex_integer True True) [],
                 RelationshipProperty ex_clerk_shop]"

definition ex_item :: mapper where
  "ex_item = mk_mapper ''Item''
               [mk_column ''Item'' ''id'' ex_integer False False,
                mk_column ''Item'' ''shop_id'' ex_integer True True]
               [ColumnProperty ''id'' (mk_column ''Item'' ''id'' ex_integer False False) [],
                ColumnProperty ''shop_id'' (mk_column ''Item'' ''shop_id'' ex_integer True True) [],
                RelationshipProperty ex_item_shop]"

definition ex_shop_env :: env where
  "ex_shop_env = [(''Shop'', ex_shop), (''Clerk'', ex_clerk), (''Item'', ex_item)]"

text \<open>A parent with a non-nullable \<^verbatim>\<open>pid\<close> and the one-to-many relationship
  \<^verbatim>\<open>children\<close> (back reference \<^verbatim>\<open>parent\<close>) to a child with a non-nullable \<^verbatim>\<open>cid\<close> and
  the nullable \<^verbatim>\<open>name\<close> and \<^verbatim>\<open>secret\<close>.\<close>

definition ex_children :: relationship where
  "ex_children =
     (mk_relationship ''Parent'' ''children'' ''Child'' ONETOMANY [] [])\<lparr>r_backref := Some ''parent''\<rparr>"

definition ex_parent :: mapper where
  "ex_parent = mk_mapper ''Parent'' [mk_column ''Parent'' ''pid'' ex_integer False False]
                 [ColumnProperty ''pid'' (mk_column ''Parent'' ''pid'' ex_integer False False) [],
                  RelationshipProperty ex_children]"

definition ex_child :: mapper where
  "ex_child = mk_mapper ''Child''
                [mk_column ''Child'' ''cid'' ex_integer False False,
                 mk_column ''Child'' ''name'' ex_string50 True False,
                 mk_column ''Child'' ''secret'' ex_string50 True False]
                [ColumnProperty ''cid'' (mk_column ''Child'' ''cid'' ex_integer False False) [],
                 ColumnProperty ''name'' (mk_column ''Child'' ''name'' ex_string50 True False) [],
                 ColumnProperty ''secret'' (mk_column ''Child'' ''secret'' ex_string50 True False) []]"

definition ex_family :: env where
  "ex_family = [(''Parent'', ex_parent), (''Child'', ex_child)]"

section \<open>Properties of the embedding\<close>

lemma map_of_dict_set: "map_of (dict_set k v d) = (map_of d)(k \<mapsto> v)"
  by (simp add: dict_set_def update_conv')

lemma overrides_result:
  "overrides kvs d nu = Inr (d', nu') \<Longrightarrow> distinct (map fst kvs) \<Longrightarrow>
     nu' = filter (\<lambda>k. k \<notin> fst ` set kvs) nu \<and> fst ` set kvs \<subseteq> set nu \<and>
     (\<forall>k j. (k, Value j) \<in> set kvs \<longrightarrow> map_of d' k = Some j) \<and>
     (\<forall>k. k \<notin> fst ` set kvs \<longrightarrow> map_of d' k = map_of d k)"
proof (induction kvs arbitrary: d nu)
  case Nil then show ?case by simp
next
  case (Cons kv kvs)
  obtain k v where kv: "kv = (k, v)" by (cases kv)
  from Cons.prems(1) obtain d1 where
    d1: "(case v of PopMarker \<Rightarrow> dict_pop k d | Value j \<Rightarrow> Inr (dict_set k j d)) = Inr d1"
    and kin: "k \<in> set nu"
    and rest: "overrides kvs d1 (removeAll k nu) = Inr (d', nu')"
    by (auto simp: kv split: sum.splits if_splits)
  from Cons.prems(2) have dist: "distinct (map fst kvs)" and knot: "k \<notin> fst ` set kvs"
    by (auto simp: kv)
  note IH = Cons.IH[OF rest dist]
  have a: "nu' = filter (\<lambda>x. x \<notin> fst ` set (kv # kvs)) nu"
    using IH by (auto simp: kv removeAll_filter_not_eq intro: filter_cong)
  have b: "fst ` set (kv # kvs) \<subseteq> set nu" using IH kin by (auto simp: kv)
  have c: "\<forall>k' j. (k', Value j) \<in> set (kv # kvs) \<longrightarrow> map_of d' k' = Some j"
  proof (intro allI impI)
    fix k' j assume h: "(k', Value j) \<in> set (kv # kvs)"
    show "map_of d' k' = Some j"
    proof (cases "(k', Value j) \<in> set kvs")
      case True then show ?thesis using IH by blast
    next
      case False
      with h have e: "k' = k" "v = Value j" by (auto simp: kv)
      with d1 have "d1 = dict_set k j d" by simp
      moreover have "map_of d' k = map_of d1 k" using IH knot by blast
      ultimately show ?thesis using e by (simp add: map_of_dict_set)
    qed
  qed
  have d: "\<forall>k'. k' \<notin> fst ` set (kv # kvs) \<longrightarrow> map_of d' k' = map_of d k'"
  proof (intro allI impI)
    fix k' assume h: "k' \<notin> fst ` set (kv # kvs)"
    then have "k' \<noteq> k" "k' \<notin> fst ` set kvs" by (auto simp: kv)
    then have "map_of d' k' = map_of d1 k'" using IH by blast
    moreover have "map_of d1 k' = map_of d k'" using d1 \<open>k' \<noteq> k\<close>
      by (cases v) (auto simp: map_of_dict_set dict_pop_def delete_conv' split: if_splits)
    ultimately show "map_of d' k' = map_of d k'" by simp
  qed
  from a b c d show ?case by blast
qed

lemma relationships_sub: "r \<in> set (relationships ps) \<Longrightarrow> RelationshipProperty r \<in> set ps"
  by (induction ps rule: relationships.induct) auto

lemma items_ok_iterate: "list_all (item_ok (w_mapper w)) (iterate w)"
  by (auto simp: iterate_def list_all_iff treat_relationship_def Let_def relationships_sub
           split: walker_kind.splits option.splits if_splits)

lemma props_lookup_in: "props_lookup m n = Inr p \<Longrightarrow> p \<in> set (m_props m)"
  by (auto simp: props_lookup_def split: option.splits dest: find_Some_iff[THEN iffD1] simp: in_set_conv_nth)

lemma eval_item_in: "eval_item m wk it = Inr (p, wk') \<Longrightarrow> item_ok m it \<Longrightarrow> p \<in> set (m_props m)"
  by (cases it) (auto simp: eval_item_def ebind_def split: sum.splits dest: props_lookup_in)

lemma in_all_props: "m \<in> snd ` set env \<Longrightarrow> p \<in> set (m_props m) \<Longrightarrow> p \<in> set (all_props env)"
  by (auto simp: all_props_def)

lemma passes_guarded: "guarded (w_kind w) \<Longrightarrow> passes w hist wk p \<Longrightarrow> p \<notin> set hist"
  by (auto simp: guarded_def passes_def split: walker_kind.splits)

lemma flatten_no_rel: "Inr (RELATIONSHIP, q, opts) \<notin> set (flatten m r)"
  by (auto simp: flatten_def split: sum.splits)

lemma acts_ok_desicion:
  "p \<in> U \<Longrightarrow> p \<notin> set hist \<Longrightarrow> acts_ok U hist (desicion cfg w h p toplevel)"
  by (auto simp: acts_ok_def desicion_def relation_desicion_def comfortable_desicion_def flatten_no_rel
           split: policy.splits property.splits direction.splits list.splits)

lemma acts_ok_tail:
  "acts_ok U hist (Inr (a, p, opts) # acts) \<Longrightarrow> a \<noteq> RELATIONSHIP \<Longrightarrow> acts_ok U hist' acts"
  by (auto simp: acts_ok_def)

lemma acts_ok_rel:
  "acts_ok U hist (Inr (RELATIONSHIP, p, opts) # acts) \<Longrightarrow> acts = [] \<and> p \<in> U \<and> p \<notin> set hist"
  by (auto simp: acts_ok_def)

lemma walker_init_shared:
  "walker_init kind m inc exc (Some a) h = Inr (w, h') \<Longrightarrow> a < length h \<Longrightarrow> h ! a \<noteq> [] \<Longrightarrow>
     h' = h \<and> w_history w = a \<and> w_kind w = kind \<and> w_mapper w = m"
  by (auto simp: walker_init_def history_or_new_def deref_def split: if_splits)

lemma clone_shared:
  "clone w0 name m inc exc (Some a) h = Inr (w, h') \<Longrightarrow> a < length h \<Longrightarrow> h ! a \<noteq> [] \<Longrightarrow> guarded (w_kind w0) \<Longrightarrow>
     h' = h \<and> w_history w = a \<and> guarded (w_kind w) \<and> w_mapper w = m"
  by (auto simp: clone_def ebind_def guarded_def split: walker_kind.splits sum.splits dest!: walker_init_shared)

lemma target_mapper_in: "target_mapper env r = Inr m \<Longrightarrow> m \<in> snd ` set env"
  by (auto simp: target_mapper_def split: option.splits dest!: map_of_SomeD intro: rev_image_eqI)

lemma enter_relationship_child:
  assumes "enter_relationship cfg env fr p st = Inr (cfr, cst)"
    and "guarded (w_kind (f_walker fr))" and "f_history fr < length (heap st)"
  shows "child_frame env cfr cst \<and> f_history cfr = f_history fr \<and>
         heap cst = (heap st)[f_history fr := heap st ! f_history fr @ [p]]"
proof -
  let ?a = "f_history fr"
  let ?h1 = "(heap st)[?a := heap st ! ?a @ [p]]"
  have h1: "?a < length ?h1" "?h1 ! ?a \<noteq> []" using assms(3) by auto
  from assms(1) obtain r sw h2 so exc inc m where
    p: "p = RelationshipProperty r"
    and cl: "clone (f_walker fr) (r_key r) m inc exc (Some ?a) ?h1 = Inr (sw, h2)"
    and tm: "target_mapper env r = Inr m"
    and cfr: "cfr = \<lparr>f_walker = sw, f_overrides = so, f_depth = child_depth (f_depth fr),
                     f_history = ?a, f_toplevel = False\<rparr>"
    and cst: "heap cst = h2"
    using assms(3)
    by (auto simp: enter_relationship_def child_walker_def ebind_def Let_def deref_def
             split: property.splits sum.splits prod.splits)
  from clone_shared[OF cl h1 assms(2)] target_mapper_in[OF tm] show ?thesis
    using h1 by (auto simp: child_frame_def cfr cst)
qed

lemma leave_relationship_heap:
  "leave_relationship cfg env fr p st cst = Inr st' \<Longrightarrow> heap st' = heap cst"
  by (auto simp: leave_relationship_def ebind_def split: property.splits sum.splits prod.splits)

lemma history_extended_intro:
  assumes "length (heap st') = length (heap st)" and "heap st' ! a = heap st ! a @ ext"
    and "distinct ext" and "set ext \<inter> set (heap st ! a) = {}"
  shows "history_extended a st st'"
  unfolding history_extended_def using assms by (intro conjI exI[of _ ext]) simp_all

lemma history_extended_elim:
  assumes "history_extended a st st'"
  obtains ext where "length (heap st') = length (heap st)" and "heap st' ! a = heap st ! a @ ext"
    and "distinct ext" and "set ext \<inter> set (heap st ! a) = {}"
  using assms unfolding history_extended_def by (elim conjE exE)

lemma history_extended_refl: "history_extended a st st"
  by (rule history_extended_intro[of _ _ _ "[]"]) simp_all

lemma history_extended_trans:
  assumes "history_extended a st st1" and "history_extended a st1 st2"
  shows "history_extended a st st2"
proof -
  from assms(1) obtain e1 where l1: "length (heap st1) = length (heap st)"
    and 1: "heap st1 ! a = heap st ! a @ e1" "distinct e1" "set e1 \<inter> set (heap st ! a) = {}"
    by (rule history_extended_elim)
  from assms(2) obtain e2 where l2: "length (heap st2) = length (heap st1)"
    and 2: "heap st2 ! a = heap st1 ! a @ e2" "distinct e2" "set e2 \<inter> set (heap st1 ! a) = {}"
    by (rule history_extended_elim)
  have d: "set e1 \<inter> set e2 = {}" using 1(1) 2(3) by auto
  have e: "set e2 \<inter> set (heap st ! a) = {}" using 1(1) 2(3) by auto
  show ?thesis
  proof (rule history_extended_intro[of _ _ _ "e1 @ e2"])
    show "length (heap st2) = length (heap st)" using l1 l2 by simp
    show "heap st2 ! a = heap st ! a @ e1 @ e2" using 1(1) 2(1) by simp
    show "distinct (e1 @ e2)" using 1(2) 2(2) d by simp
    show "set (e1 @ e2) \<inter> set (heap st ! a) = {}" using 1(3) e by (simp add: Int_Un_distrib2)
  qed
qed

lemma history_extended_same_heap:
  "heap st0 = heap st \<Longrightarrow> history_extended a st0 st' \<Longrightarrow> history_extended a st st'"
  unfolding history_extended_def by simp

lemma history_extended_to_same_heap:
  "heap st1 = heap st' \<Longrightarrow> history_extended a st st' \<Longrightarrow> history_extended a st st1"
  unfolding history_extended_def by simp

lemma history_extended_append:
  assumes "heap cst = (heap st)[a := heap st ! a @ [p]]" and "a < length (heap st)"
    and "p \<notin> set (heap st ! a)"
  shows "history_extended a st cst"
proof (rule history_extended_intro[of _ _ _ "[p]"])
  show "length (heap cst) = length (heap st)" using assms(1) by simp
  show "heap cst ! a = heap st ! a @ [p]" using assms(1,2) by simp
  show "distinct [p]" by simp
  show "set [p] \<inter> set (heap st ! a) = {}" using assms(3) by simp
qed

lemma history_extended_ext:
  assumes "history_extended a st st'"
  shows "length (heap st') = length (heap st) \<and> (\<exists>ext. heap st' ! a = heap st ! a @ ext)"
  using assms by (elim history_extended_elim) (intro conjI exI, assumption+)

lemma card_append:
  assumes "p \<in> U" "p \<notin> set hist" "finite U" "card (U - set hist) \<le> fuel"
  shows "\<exists>n. fuel = Suc n \<and> card (U - set (hist @ [p])) \<le> n"
proof -
  have "U - set (hist @ [p]) = (U - set hist) - {p}" by auto
  moreover have "p \<in> U - set hist" using assms by simp
  moreover have "finite (U - set hist)" using assms by simp
  ultimately have "card (U - set (hist @ [p])) = card (U - set hist) - 1" "card (U - set hist) > 0"
    by (auto simp: card_gt_0_iff)
  then show ?thesis using assms(4) by (cases fuel) auto
qed

lemma card_ext: "finite U \<Longrightarrow> card (U - set (hist @ ext)) \<le> card (U - set hist)"
  by (rule card_mono) auto

lemma build_loop_child:
  "child_frame env fr st \<Longrightarrow> list_all (item_ok (w_mapper (f_walker fr))) items \<Longrightarrow>
   acts_ok (set (all_props env)) (heap st ! f_history fr) acts \<Longrightarrow>
   card (set (all_props env) - set (heap st ! f_history fr)) \<le> fuel \<Longrightarrow>
   \<exists>res. build_loop fuel cfg env fr acts items st = Some res \<and>
         (\<forall>st'. res = Inr st' \<longrightarrow> history_extended (f_history fr) st st')"
proof (induction fuel cfg env fr acts items st rule: build_loop.induct)
  case (1 fuel cfg env fr st)
  then show ?case by (simp add: history_extended_refl)
next
  case (2 fuel cfg env fr it items st)
  let ?w = "f_walker fr"
  show ?case
  proof (cases "eval_item (w_mapper ?w) (walking st) it")
    case (Inl e) then show ?thesis by simp
  next
    case (Inr b)
    obtain p wk where b: "b = (p, wk)" by (cases b)
    from "2.prems"(2) have itok: "item_ok (w_mapper ?w) it" and items: "list_all (item_ok (w_mapper ?w)) items"
      by auto
    from "2.prems"(1) have g: "guarded (w_kind ?w)" and wh: "w_history ?w = f_history fr"
      and lt: "f_history fr < length (heap st)" and min: "w_mapper ?w \<in> snd ` set env"
      by (auto simp: child_frame_def)
    have pU: "p \<in> set (all_props env)"
      using eval_item_in[OF Inr[unfolded b] itok] min by (rule in_all_props[rotated])
    have cf: "child_frame env fr (st\<lparr>walking := wk\<rparr>)" using "2.prems"(1) by (simp add: child_frame_def)
    have dr: "deref (heap st) (w_history ?w) = heap st ! f_history fr" using wh lt by (simp add: deref_def)
    have cd: "card (set (all_props env) - set (heap (st\<lparr>walking := wk\<rparr>) ! f_history fr)) \<le> fuel"
      using "2.prems"(4) by simp
    show ?thesis
    proof (cases "passes ?w (deref (heap st) (w_history ?w)) wk p")
      case True
      then have "p \<notin> set (heap st ! f_history fr)" using passes_guarded[OF g] dr by auto
      then have "acts_ok (set (all_props env)) (heap (st\<lparr>walking := wk\<rparr>) ! f_history fr)
                   (desicion cfg ?w (heap st) p (f_toplevel fr))"
        using pU by (simp add: acts_ok_desicion)
      from "2.IH"(1)[OF Inr b[symmetric] True cf items this cd]
      obtain res where r: "build_loop fuel cfg env fr (desicion cfg ?w (heap st) p (f_toplevel fr)) items
                          (st\<lparr>walking := wk\<rparr>) = Some res"
        and rp: "\<forall>st'. res = Inr st' \<longrightarrow> history_extended (f_history fr) (st\<lparr>walking := wk\<rparr>) st'"
        by blast
      have "\<forall>st'. res = Inr st' \<longrightarrow> history_extended (f_history fr) st st'"
        using rp history_extended_same_heap[of "st\<lparr>walking := wk\<rparr>" st "f_history fr"] by simp
      then show ?thesis using r Inr b True by simp
    next
      case False
      have "acts_ok (set (all_props env)) (heap (st\<lparr>walking := wk\<rparr>) ! f_history fr) []"
        by (simp add: acts_ok_def)
      from "2.IH"(2)[OF Inr b[symmetric] False cf items this cd]
      obtain res where r: "build_loop fuel cfg env fr [] items (st\<lparr>walking := wk\<rparr>) = Some res"
        and rp: "\<forall>st'. res = Inr st' \<longrightarrow> history_extended (f_history fr) (st\<lparr>walking := wk\<rparr>) st'"
        by blast
      have "\<forall>st'. res = Inr st' \<longrightarrow> history_extended (f_history fr) st st'"
        using rp history_extended_same_heap[of "st\<lparr>walking := wk\<rparr>" st "f_history fr"] by simp
      then show ?thesis using r Inr b False by simp
    qed
  qed
next
  case (3 fuel cfg env fr e acts items st)
  then show ?case by simp
next
  case (4 fuel cfg env fr p opts acts items st)
  show ?case
  proof (cases "build_foreignkey cfg (f_overrides fr) p opts (prop_schema st) (not_used_keys st)")
    case (Inl e) then show ?thesis by simp
  next
    case (Inr b)
    obtain ps nu where b: "b = (ps, nu)" by (cases b)
    let ?st = "st\<lparr>not_used_keys := nu, prop_schema := ps\<rparr>"
    have cf: "child_frame env fr ?st" using "4.prems"(1) by (simp add: child_frame_def)
    have ao: "acts_ok (set (all_props env)) (heap ?st ! f_history fr) acts"
      using acts_ok_tail[OF "4.prems"(3)] by simp
    have cd: "card (set (all_props env) - set (heap ?st ! f_history fr)) \<le> fuel"
      using "4.prems"(4) by simp
    from "4.IH"[OF Inr b[symmetric] cf "4.prems"(2) ao cd]
    obtain res where r: "build_loop fuel cfg env fr acts items ?st = Some res"
      and rp: "\<forall>st'. res = Inr st' \<longrightarrow> history_extended (f_history fr) ?st st'"
      by blast
    have "\<forall>st'. res = Inr st' \<longrightarrow> history_extended (f_history fr) st st'"
      using rp history_extended_same_heap[of ?st st "f_history fr"] by simp
    then show ?thesis using r Inr b by simp
  qed
next
  case (5 fuel cfg env fr j p opts acts items st)
  let ?st = "st\<lparr>prop_schema := dict_set (prop_key p) j (prop_schema st)\<rparr>"
  have cf: "child_frame env fr ?st" using "5.prems"(1) by (simp add: child_frame_def)
  have ao: "acts_ok (set (all_props env)) (heap ?st ! f_history fr) acts"
    using acts_ok_tail[OF "5.prems"(3)] by simp
  have cd: "card (set (all_props env) - set (heap ?st ! f_history fr)) \<le> fuel"
    using "5.prems"(4) by simp
  from "5.IH"[OF cf "5.prems"(2) ao cd]
  obtain res where r: "build_loop fuel cfg env fr acts items ?st = Some res"
    and rp: "\<forall>st'. res = Inr st' \<longrightarrow> history_extended (f_history fr) ?st st'"
    by blast
  have "\<forall>st'. res = Inr st' \<longrightarrow> history_extended (f_history fr) st st'"
    using rp history_extended_same_heap[of ?st st "f_history fr"] by simp
  then show ?case using r  by simp
next
  case (6 fuel cfg env fr p opts acts items st)
  let ?a = "f_history fr"
  let ?U = "set (all_props env)"
  from acts_ok_rel[OF "6.prems"(3)] have acts: "acts = []" and pU: "p \<in> ?U" and pn: "p \<notin> set (heap st ! ?a)"
    by auto
  from "6.prems"(1) have g: "guarded (w_kind (f_walker fr))" and lt: "?a < length (heap st)"
    by (auto simp: child_frame_def)
  show ?case
  proof (cases "enter_relationship cfg env fr p st")
    case (Inl e) then show ?thesis by simp
  next
    case (Inr b)
    obtain cfr cst where b: "b = (cfr, cst)" by (cases b)
    from enter_relationship_child[OF Inr[unfolded b] g lt]
    have ccf: "child_frame env cfr cst" and ca: "f_history cfr = ?a"
      and ch: "heap cst = (heap st)[?a := heap st ! ?a @ [p]]" by auto
    have chh: "heap cst ! ?a = heap st ! ?a @ [p]" using ch lt by simp
    from card_append[OF pU pn _ "6.prems"(4)] obtain n where
      n: "fuel = Suc n" and cn: "card (?U - set (heap st ! ?a @ [p])) \<le> n" by auto
    have pst: "history_extended ?a st cst" using ch lt pn by (rule history_extended_append)
    have "\<exists>cres. (if depth_exhausted (f_depth cfr) then Some (Inr cst)
                 else (case fuel of 0 \<Rightarrow> None | Suc n \<Rightarrow> build_loop n cfg env cfr [] (iterate (f_walker cfr)) cst))
                = Some cres \<and> (\<forall>cst'. cres = Inr cst' \<longrightarrow> history_extended ?a st cst')"
    proof (cases "depth_exhausted (f_depth cfr)")
      case True then show ?thesis using pst by simp
    next
      case False
      have ao: "acts_ok ?U (heap cst ! f_history cfr) []" by (simp add: acts_ok_def)
      have cd: "card (?U - set (heap cst ! f_history cfr)) \<le> n" using cn chh ca by simp
      from "6.IH"(1)[OF Inr b[symmetric] False n ccf items_ok_iterate ao cd]
      obtain cres where c1: "build_loop n cfg env cfr [] (iterate (f_walker cfr)) cst = Some cres"
        and c2: "\<forall>cst'. cres = Inr cst' \<longrightarrow> history_extended (f_history cfr) cst cst'" by blast
      have "\<forall>cst'. cres = Inr cst' \<longrightarrow> history_extended ?a st cst'"
        using c2 ca history_extended_trans[OF pst] by simp
      then show ?thesis using False n c1 by simp
    qed
    then obtain cres where cres: "(if depth_exhausted (f_depth cfr) then Some (Inr cst)
                 else (case fuel of 0 \<Rightarrow> None | Suc n \<Rightarrow> build_loop n cfg env cfr [] (iterate (f_walker cfr)) cst))
                = Some cres" and cpost: "\<forall>cst'. cres = Inr cst' \<longrightarrow> history_extended ?a st cst'" by blast
    show ?thesis
    proof (cases cres)
      case (Inl e) then show ?thesis using Inr b cres by simp
    next
      case cr: (Inr cst')
      with cpost have p1: "history_extended ?a st cst'" by simp
      show ?thesis
      proof (cases "leave_relationship cfg env fr p st cst'")
        case (Inl e) then show ?thesis using Inr b cres cr by simp
      next
        case lr: (Inr st1)
        have hh: "heap st1 = heap cst'" using leave_relationship_heap[OF lr] .
        have p2: "history_extended ?a st st1" using hh p1 by (rule history_extended_to_same_heap)
        from history_extended_ext[OF p2] obtain ext where
          ext: "heap st1 ! ?a = heap st ! ?a @ ext" and len: "length (heap st1) = length (heap st)"
          by blast
        have cf: "child_frame env fr st1"
          using "6.prems"(1) ext len by (auto simp: child_frame_def)
        have ao: "acts_ok ?U (heap st1 ! ?a) acts" using acts by (simp add: acts_ok_def)
        have cd: "card (?U - set (heap st1 ! ?a)) \<le> fuel"
          using card_ext[of ?U "heap st ! ?a" ext] "6.prems"(4) ext by simp
        from "6.IH"(2)[OF Inr b[symmetric] cres cr lr cf "6.prems"(2) ao cd]
        obtain res where r: "build_loop fuel cfg env fr acts items st1 = Some res"
          and rp: "\<forall>st'. res = Inr st' \<longrightarrow> history_extended ?a st1 st'" by blast
        have "\<forall>st'. res = Inr st' \<longrightarrow> history_extended ?a st st'"
          using rp history_extended_trans[OF p2] by simp
        then show ?thesis using Inr b cres cr lr r by simp
      qed
    qed
  qed
qed

lemma top_level_extended_refl: "top_level_extended a st st []"
  by (simp add: top_level_extended_def segments_log_def)

lemma top_level_extended_same_heap:
  "heap st0 = heap st \<Longrightarrow> top_level_extended a st0 st' segs \<Longrightarrow> top_level_extended a st st' segs"
  unfolding top_level_extended_def by simp

lemma top_level_extended_step:
  assumes ch: "heap cst = (heap st)[a := heap st ! a @ [p]]" and lt: "a < length (heap st)"
    and he: "history_extended a cst cst'" and hh: "heap st1 = heap cst'"
    and tl: "top_level_extended a st1 st' segs"
  shows "top_level_extended a st st'
           ((p, drop (length (deref (heap cst) a)) (deref (heap cst') a)) # segs)"
proof -
  let ?h = "heap st ! a"
  have c: "heap cst ! a = ?h @ [p]" and lc: "length (heap cst) = length (heap st)"
    using ch lt by simp_all
  from he obtain ext where l1: "length (heap cst') = length (heap cst)"
    and e: "heap cst' ! a = heap cst ! a @ ext" "distinct ext" "set ext \<inter> set (heap cst ! a) = {}"
    by (rule history_extended_elim)
  have d1: "deref (heap cst) a = heap cst ! a" using lc lt by (simp add: deref_def)
  have d2: "deref (heap cst') a = heap cst' ! a" using l1 lc lt by (simp add: deref_def)
  have dr: "drop (length (deref (heap cst) a)) (deref (heap cst') a) = ext"
    using d1 d2 e(1) by simp
  from tl have l2: "length (heap st') = length (heap st1)"
    and s: "heap st' ! a = heap st1 ! a @ segments_log segs" "descents_fresh (heap st1 ! a) segs"
    unfolding top_level_extended_def by simp_all
  have h1: "heap st1 ! a = ?h @ p # ext" using hh e(1) c by simp
  have 1: "length (heap st') = length (heap st)" using l2 hh l1 lc by simp
  have 2: "heap st' ! a = ?h @ segments_log ((p, ext) # segs)"
    using s(1) h1 by (simp add: segments_log_def)
  have "set ext \<inter> set (?h @ [p]) = {}" using e(3) c by simp
  moreover have "descents_fresh (?h @ p # ext) segs" using s(2) h1 by simp
  ultimately have 3: "descents_fresh ?h ((p, ext) # segs)" using e(2) by simp
  from 1 2 3 show ?thesis unfolding top_level_extended_def dr by simp
qed

lemma build_loop_root:
  "guarded (w_kind (f_walker fr)) \<Longrightarrow> f_history fr < length (heap st) \<Longrightarrow>
   card (set (all_props env)) < fuel \<Longrightarrow>
   \<exists>res. build_loop fuel cfg env fr acts items st = Some res \<and>
         (\<forall>st'. res = Inr st' \<longrightarrow>
            top_level_extended (f_history fr) st st' (descents fuel cfg env fr acts items st))"
proof (induction fuel cfg env fr acts items st rule: build_loop.induct)
  case (1 fuel cfg env fr st)
  then show ?case by (simp add: top_level_extended_refl)
next
  case (2 fuel cfg env fr it items st)
  show ?case
  proof (cases "eval_item (w_mapper (f_walker fr)) (walking st) it")
    case (Inl e) then show ?thesis by simp
  next
    case (Inr b)
    obtain p wk where b: "b = (p, wk)" by (cases b)
    let ?st = "st\<lparr>walking := wk\<rparr>"
    have lt: "f_history fr < length (heap ?st)" using "2.prems"(2) by simp
    show ?thesis
    proof (cases "passes (f_walker fr) (deref (heap st) (w_history (f_walker fr))) wk p")
      case True
      let ?acts = "desicion cfg (f_walker fr) (heap st) p (f_toplevel fr)"
      from "2.IH"(1)[OF Inr b[symmetric] True "2.prems"(1) lt "2.prems"(3)]
      obtain res where r: "build_loop fuel cfg env fr ?acts items ?st = Some res"
        and rp: "\<forall>st'. res = Inr st' \<longrightarrow>
                   top_level_extended (f_history fr) ?st st' (descents fuel cfg env fr ?acts items ?st)"
        by blast
      have "\<forall>st'. res = Inr st' \<longrightarrow>
              top_level_extended (f_history fr) st st' (descents fuel cfg env fr ?acts items ?st)"
        using rp top_level_extended_same_heap[of ?st st "f_history fr"] by simp
      then show ?thesis using r Inr b True by simp
    next
      case False
      from "2.IH"(2)[OF Inr b[symmetric] False "2.prems"(1) lt "2.prems"(3)]
      obtain res where r: "build_loop fuel cfg env fr [] items ?st = Some res"
        and rp: "\<forall>st'. res = Inr st' \<longrightarrow>
                   top_level_extended (f_history fr) ?st st' (descents fuel cfg env fr [] items ?st)"
        by blast
      have "\<forall>st'. res = Inr st' \<longrightarrow>
              top_level_extended (f_history fr) st st' (descents fuel cfg env fr [] items ?st)"
        using rp top_level_extended_same_heap[of ?st st "f_history fr"] by simp
      then show ?thesis using r Inr b False by simp
    qed
  qed
next
  case (3 fuel cfg env fr e acts items st)
  then show ?case by simp
next
  case (4 fuel cfg env fr p opts acts items st)
  show ?case
  proof (cases "build_foreignkey cfg (f_overrides fr) p opts (prop_schema st) (not_used_keys st)")
    case (Inl e) then show ?thesis by simp
  next
    case (Inr b)
    obtain ps nu where b: "b = (ps, nu)" by (cases b)
    let ?st = "st\<lparr>not_used_keys := nu, prop_schema := ps\<rparr>"
    have lt: "f_history fr < length (heap ?st)" using "4.prems"(2) by simp
    from "4.IH"[OF Inr b[symmetric] "4.prems"(1) lt "4.prems"(3)]
    obtain res where r: "build_loop fuel cfg env fr acts items ?st = Some res"
      and rp: "\<forall>st'. res = Inr st' \<longrightarrow>
                 top_level_extended (f_history fr) ?st st' (descents fuel cfg env fr acts items ?st)"
      by blast
    have "\<forall>st'. res = Inr st' \<longrightarrow>
            top_level_extended (f_history fr) st st' (descents fuel cfg env fr acts items ?st)"
      using rp top_level_extended_same_heap[of ?st st "f_history fr"] by simp
    then show ?thesis using r Inr b by simp
  qed
next
  case (5 fuel cfg env fr j p opts acts items st)
  let ?st = "st\<lparr>prop_schema := dict_set (prop_key p) j (prop_schema st)\<rparr>"
  have lt: "f_history fr < length (heap ?st)" using "5.prems"(2) by simp
  from "5.IH"[OF "5.prems"(1) lt "5.prems"(3)]
  obtain res where r: "build_loop fuel cfg env fr acts items ?st = Some res"
    and rp: "\<forall>st'. res = Inr st' \<longrightarrow>
               top_level_extended (f_history fr) ?st st' (descents fuel cfg env fr acts items ?st)"
    by blast
  have "\<forall>st'. res = Inr st' \<longrightarrow>
          top_level_extended (f_history fr) st st' (descents fuel cfg env fr acts items ?st)"
    using rp top_level_extended_same_heap[of ?st st "f_history fr"] by simp
  then show ?case using r by simp
next
  case (6 fuel cfg env fr p opts acts items st)
  let ?a = "f_history fr"
  let ?U = "set (all_props env)"
  show ?case
  proof (cases "enter_relationship cfg env fr p st")
    case (Inl e) then show ?thesis by simp
  next
    case (Inr b)
    obtain cfr cst where b: "b = (cfr, cst)" by (cases b)
    from enter_relationship_child[OF Inr[unfolded b] "6.prems"(1,2)]
    have ccf: "child_frame env cfr cst" and ca: "f_history cfr = ?a"
      and ch: "heap cst = (heap st)[?a := heap st ! ?a @ [p]]" by auto
    from "6.prems"(3) obtain n where n: "fuel = Suc n" and cn: "card ?U \<le> n" by (cases fuel) auto
    have "\<exists>cres. (if depth_exhausted (f_depth cfr) then Some (Inr cst)
                 else (case fuel of 0 \<Rightarrow> None | Suc n \<Rightarrow> build_loop n cfg env cfr [] (iterate (f_walker cfr)) cst))
                = Some cres \<and> (\<forall>cst'. cres = Inr cst' \<longrightarrow> history_extended ?a cst cst')"
    proof (cases "depth_exhausted (f_depth cfr)")
      case True then show ?thesis by (simp add: history_extended_refl)
    next
      case False
      have ao: "acts_ok ?U (heap cst ! f_history cfr) []" by (simp add: acts_ok_def)
      have "card (?U - set (heap cst ! f_history cfr)) \<le> card ?U" by (rule card_mono) auto
      then have cd: "card (?U - set (heap cst ! f_history cfr)) \<le> n" using cn by simp
      from build_loop_child[OF ccf items_ok_iterate ao cd, of cfg]
      show ?thesis using False n ca by auto
    qed
    then obtain cres where cres: "(if depth_exhausted (f_depth cfr) then Some (Inr cst)
                 else (case fuel of 0 \<Rightarrow> None | Suc n \<Rightarrow> build_loop n cfg env cfr [] (iterate (f_walker cfr)) cst))
                = Some cres" and cpost: "\<forall>cst'. cres = Inr cst' \<longrightarrow> history_extended ?a cst cst'" by blast
    show ?thesis
    proof (cases cres)
      case (Inl e) then show ?thesis using Inr b cres by simp
    next
      case cr: (Inr cst')
      with cpost have p1: "history_extended ?a cst cst'" by simp
      from history_extended_ext[OF p1] ch have len1: "length (heap cst') = length (heap st)" by simp
      show ?thesis
      proof (cases "leave_relationship cfg env fr p st cst'")
        case (Inl e) then show ?thesis using Inr b cres cr by simp
      next
        case lr: (Inr st1)
        have hh: "heap st1 = heap cst'" using leave_relationship_heap[OF lr] .
        have lt: "f_history fr < length (heap st1)" using hh len1 "6.prems"(2) by simp
        let ?segs = "descents fuel cfg env fr acts items st1"
        from "6.IH"(2)[OF Inr b[symmetric] cres cr lr "6.prems"(1) lt "6.prems"(3)]
        obtain res where r: "build_loop fuel cfg env fr acts items st1 = Some res"
          and rp: "\<forall>st'. res = Inr st' \<longrightarrow> top_level_extended ?a st1 st' ?segs" by auto
        have ds: "descents fuel cfg env fr (Inr (RELATIONSHIP, p, opts) # acts) items st
                    = (p, drop (length (deref (heap cst) ?a)) (deref (heap cst') ?a)) # ?segs"
          using Inr b cres cr lr ca by simp
        have "\<forall>st'. res = Inr st' \<longrightarrow>
                top_level_extended ?a st st'
                  ((p, drop (length (deref (heap cst) ?a)) (deref (heap cst') ?a)) # ?segs)"
          using rp top_level_extended_step[OF ch "6.prems"(2) p1 hh] by blast
        then show ?thesis using Inr b cres cr lr r ds by simp
      qed
    qed
  qed
qed

lemma card_all_props: "card (set (all_props env)) \<le> length (all_props env)"
  by (rule card_length)

lemma walker_init_kind: "walker_init kind m inc exc hist h = Inr (w, h') \<Longrightarrow> w_kind w = kind"
  by (auto simp: walker_init_def split: prod.splits if_splits)

subsection \<open>Construction of a walker\<close>

lemma conflict_iff:
  "conflict includes excludes =
     (\<exists>inc exc. includes = Some inc \<and> excludes = Some exc \<and> Some ` set inc \<inter> set exc \<noteq> {})"
  by (auto simp: conflict_def list_ex_iff split: option.splits)

text \<open>
  Claim C7.  When includes and excludes are both given and share a key, the constructor
  of every walker class raises \<open>InvalidStatus\<close>, and so does the whole generation, whatever
  the fuel: no property is traversed.  When one of them is absent or they are disjoint,
  the constructor returns a walker.
\<close>

theorem walker_init_conflict:
  "(includes = Some inc \<and> excludes = Some exc \<and> Some ` set inc \<inter> set exc \<noteq> {} \<longrightarrow>
      walker_init kind m includes excludes history h = Inl (InvalidStatus (Conflict inc exc)) \<and>
      generate fuel (cfg\<lparr>walker_class := kind\<rparr>) env m includes excludes params depth
        = Some (Inl (InvalidStatus (Conflict inc exc)))) \<and>
   ((includes = None \<or> excludes = None \<or>
       (\<exists>inc exc. includes = Some inc \<and> excludes = Some exc \<and> Some ` set inc \<inter> set exc = {})) \<longrightarrow>
      (\<exists>w h'. walker_init kind m includes excludes history h = Inr (w, h') \<and>
              w_includes w = includes \<and> w_excludes w = excludes \<and> w_mapper w = m))"
  by (auto simp: walker_init_def generate_def conflict_iff split: prod.splits)

theorem walker_init_conflict_witness:
  "walker_init AlsoChildrenWalker ex_user (Some [''id'']) (Some [Some ''id'']) None []
     = Inl (InvalidStatus (Conflict [''id''] [Some ''id''])) \<and>
   generate 0 ex_config [] ex_user (Some [''id'']) (Some [Some ''id'']) [] None
     = Some (Inl (InvalidStatus (Conflict [''id''] [Some ''id'']))) \<and>
   (\<exists>w h'. walker_init AlsoChildrenWalker ex_user (Some [''id'']) (Some [Some ''name'']) None [] = Inr (w, h'))"
proof -
  have a: "Some ` set [''id''] \<inter> set [Some ''id''] \<noteq> {}" by simp
  have b: "Some ` set [''id''] \<inter> set [Some ''name''] = {}" by simp
  have c: "ex_config\<lparr>walker_class := AlsoChildrenWalker\<rparr> = ex_config" by (simp add: ex_config_def)
  from walker_init_conflict[of "Some [''id'']" "[''id'']" "Some [Some ''id'']" "[Some ''id'']"
      AlsoChildrenWalker ex_user None "[]" 0 ex_config "[]" "[]" None] a c
  have 1: "walker_init AlsoChildrenWalker ex_user (Some [''id'']) (Some [Some ''id'']) None []
     = Inl (InvalidStatus (Conflict [''id''] [Some ''id'']))"
    and 2: "generate 0 ex_config [] ex_user (Some [''id'']) (Some [Some ''id'']) [] None
     = Some (Inl (InvalidStatus (Conflict [''id''] [Some ''id''])))" by simp_all
  from walker_init_conflict[of "Some [''id'']" "[''id'']" "Some [Some ''name'']" "[Some ''id'']"
      AlsoChildrenWalker ex_user None "[]" 0 ex_config "[]" "[]" None] b
  have 3: "\<exists>w h'. walker_init AlsoChildrenWalker ex_user (Some [''id'']) (Some [Some ''name'']) None [] = Inr (w, h')"
    by auto
  from 1 2 3 show ?thesis by blast
qed

subsection \<open>The classifier\<close>

lemma first_mapped_Some:
  "sc \<in> set scs \<Longrightarrow> sc \<in> fst ` set mapping \<Longrightarrow> \<exists>r. first_mapped mapping scs = Some r"
  by (induction scs) (auto split: option.splits simp: map_of_eq_None_iff)

text \<open>
  Claim C9, as the code has it.  \<^verbatim>\<open>__getitem__\<close> unwraps one level.  A decorator
  instance whose implementation type is not itself a decorator instance, and has its
  class or an ancestor of it in the mapping, is classified as the implementation type
  is: both return the same pair.
\<close>

theorem classify_decorator:
  assumes "isinstance ct k ''TypeDecorator''" and "impl k = Some i"
    and "\<not> isinstance ct i ''TypeDecorator''"
    and "sc \<in> set (mro ct (cls i))" and "sc \<in> fst ` set mapping"
  shows "\<exists>r. classify ct mapping k = Inr r \<and> classify ct mapping i = Inr r"
  using assms first_mapped_Some[OF assms(4,5)]
  by (auto simp: classify_def unwrap_def ebind_def split: option.splits)

theorem classify_decorator_witness:
  "isinstance ex_classes ex_inner ''TypeDecorator'' \<and> impl ex_inner = Some ex_integer \<and>
   \<not> isinstance ex_classes ex_integer ''TypeDecorator'' \<and>
   ''Integer'' \<in> set (mro ex_classes (cls ex_integer)) \<and> ''Integer'' \<in> fst ` set ex_mapping \<and>
   classify ex_classes ex_mapping ex_inner = Inr (''Integer'', ''integer'') \<and>
   classify ex_classes ex_mapping ex_integer = Inr (''Integer'', ''integer'')"
proof -
  have 1: "isinstance ex_classes ex_inner ''TypeDecorator''" by code_simp
  have 2: "impl ex_inner = Some ex_integer" by code_simp
  have 3: "\<not> isinstance ex_classes ex_integer ''TypeDecorator''" by code_simp
  have 4: "''Integer'' \<in> set (mro ex_classes (cls ex_integer))" by code_simp
  have 5: "''Integer'' \<in> fst ` set ex_mapping" by code_simp
  have 6: "classify ex_classes ex_mapping ex_integer = Inr (''Integer'', ''integer'')" by code_simp
  from classify_decorator[OF 1 2 3 4 5] 6
  have "classify ex_classes ex_mapping ex_inner = Inr (''Integer'', ''integer'')" by auto
  with 1 2 3 4 5 6 show ?thesis by blast
qed

text \<open>
  Claim C9 as stated fails when the implementation type is itself a decorator
  instance: the outer decorator is classified by the class of the inner one (which is in
  the mapping), the inner one by the class of what it wraps.
\<close>

theorem classify_nested_decorator_counterexample:
  "isinstance ex_classes ex_outer ''TypeDecorator'' \<and> impl ex_outer = Some ex_inner \<and>
   cls ex_inner \<in> fst ` set ex_mapping_inner \<and>
   classify ex_classes ex_mapping_inner ex_outer = Inr (''Inner'', ''string'') \<and>
   classify ex_classes ex_mapping_inner ex_inner = Inr (''Integer'', ''integer'')"
  by code_simp

subsection \<open>The required list\<close>

text \<open>
  Claim C1, as the code has it.  For a property yielded by the walker (whose yielded
  properties have distinct keys), the key is in the list that \<^verbatim>\<open>_detect_required\<close>
  returns if and only if at least one of its columns is non-nullable and has no default.
\<close>

theorem detect_required_any:
  assumes "walk w h wk = Inr (ps, wk')" and "p \<in> set ps" and "distinct (map prop_key ps)"
  shows "\<exists>req. detect_required w h wk = Inr (req, wk') \<and>
           (prop_key p \<in> set req \<longleftrightarrow> (\<exists>c \<in> set (columns_or_empty p). \<not> c_nullable c \<and> c_default c = None))"
proof -
  have "detect_required w h wk = Inr (required_keys ps, wk')"
    using assms(1) by (simp add: detect_required_def ebind_def)
  moreover have "prop_key p \<in> set (required_keys ps) \<longleftrightarrow> list_ex needs_value (columns_or_empty p)"
    using assms(2,3) by (auto simp: required_keys_def distinct_map inj_on_def)
  ultimately show ?thesis by (simp add: list_ex_iff needs_value_def)
qed

theorem detect_required_any_witness:
  "walk (mk_walker SingleModelWalker ex_pair None None 0) [[]] []
     = Inr ([ColumnProperty ''code'' (mk_column ''Pair'' ''code'' ex_integer False False)
               [mk_column ''Base'' ''code'' ex_integer True False]], []) \<and>
   detect_required (mk_walker SingleModelWalker ex_pair None None 0) [[]] [] = Inr ([''code''], [])"
proof -
  let ?p = "ColumnProperty ''code'' (mk_column ''Pair'' ''code'' ex_integer False False)
               [mk_column ''Base'' ''code'' ex_integer True False]"
  have 1: "walk (mk_walker SingleModelWalker ex_pair None None 0) [[]] [] = Inr ([?p], [])"
    by code_simp
  have 2: "?p \<in> set [?p]" by simp
  have 3: "distinct (map prop_key [?p])" by simp
  have 4: "\<exists>c \<in> set (columns_or_empty ?p). \<not> c_nullable c \<and> c_default c = None"
    by (simp add: mk_column_def)
  from detect_required_any[OF 1 2 3] 4 obtain req where
    r: "detect_required (mk_walker SingleModelWalker ex_pair None None 0) [[]] [] = Inr (req, [])"
    and "prop_key ?p \<in> set req" by blast
  moreover have "detect_required (mk_walker SingleModelWalker ex_pair None None 0) [[]] [] = Inr ([''code''], [])"
    by code_simp
  ultimately show ?thesis using 1 by simp
qed

text \<open>
  Claim C1 as stated fails: a property with one non-nullable column without default and
  one nullable column is listed.
\<close>

theorem detect_required_some_not_all_counterexample:
  "walker_init SingleModelWalker ex_pair None None None [] = Inr (mk_walker SingleModelWalker ex_pair None None 0, [[]]) \<and>
   walk (mk_walker SingleModelWalker ex_pair None None 0) [[]] []
     = Inr ([ColumnProperty ''code'' (mk_column ''Pair'' ''code'' ex_integer False False)
               [mk_column ''Base'' ''code'' ex_integer True False]], []) \<and>
   needs_value (mk_column ''Pair'' ''code'' ex_integer False False) \<and>
   \<not> needs_value (mk_column ''Base'' ''code'' ex_integer True False) \<and>
   detect_required (mk_walker SingleModelWalker ex_pair None None 0) [[]] [] = Inr ([''code''], [])"
  by code_simp

subsection \<open>Overrides\<close>

lemma overrides_nu_subset: "overrides kvs d nu = Inr (d', nu') \<Longrightarrow> set nu' \<subseteq> set nu"
proof (induction kvs arbitrary: d nu)
  case Nil then show ?case by simp
next
  case (Cons kv kvs)
  obtain k v where kv: "kv = (k, v)" by (cases kv)
  from Cons.prems obtain d1 where "overrides kvs d1 (removeAll k nu) = Inr (d', nu')"
    by (auto simp: kv split: sum.splits if_splits)
  from Cons.IH[OF this] show ?case by auto
qed

lemma build_column_nu: "build_column cfg params c opts nu = Inr (sub, nu') \<Longrightarrow> set nu' \<subseteq> set nu"
  by (auto simp: build_column_def ebind_def Let_def
           split: coltype.splits sum.splits prod.splits if_splits dest: overrides_nu_subset)

lemma build_columns_nu:
  "build_columns cfg params opts cs ps nu sub = Inr (ps', nu', sub') \<Longrightarrow> set nu' \<subseteq> set nu"
proof (induction cs arbitrary: ps nu sub)
  case Nil then show ?case by simp
next
  case (Cons c cs)
  from Cons.prems obtain s1 n1 where 1: "build_column cfg params c opts nu = Inr (s1, n1)"
    and 2: "build_columns cfg params opts cs (dict_set (c_name c) (JObj s1) ps) n1 s1 = Inr (ps', nu', sub')"
    by (auto split: sum.splits prod.splits)
  from build_column_nu[OF 1] Cons.IH[OF 2] show ?case by auto
qed

lemma build_foreignkey_nu:
  "build_foreignkey cfg params p opts ps nu = Inr (ps', nu') \<Longrightarrow> set nu' \<subseteq> set nu"
  by (auto simp: build_foreignkey_def ebind_def simp del: build_columns.simps
           split: property.splits sum.splits prod.splits dest: build_columns_nu)

lemma leave_relationship_nu:
  "leave_relationship cfg env fr p st cst = Inr st' \<Longrightarrow> not_used_keys st' = not_used_keys st"
  by (auto simp: leave_relationship_def ebind_def split: property.splits sum.splits prod.splits)

lemma build_loop_nu:
  "build_loop fuel cfg env fr acts items st = Some (Inr st') \<Longrightarrow>
     set (not_used_keys st') \<subseteq> set (not_used_keys st)"
proof (induction fuel cfg env fr acts items st rule: build_loop.induct)
  case (1 fuel cfg env fr st)
  then show ?case by simp
next
  case (2 fuel cfg env fr it items st)
  from "2.prems" obtain p wk where e: "eval_item (w_mapper (f_walker fr)) (walking st) it = Inr (p, wk)"
    by (auto split: sum.splits)
  show ?case
  proof (cases "passes (f_walker fr) (deref (heap st) (w_history (f_walker fr))) wk p")
    case True
    with "2.prems" e "2.IH"(1)[OF e refl True] show ?thesis by simp
  next
    case False
    with "2.prems" e "2.IH"(2)[OF e refl False] show ?thesis by simp
  qed
next
  case (3 fuel cfg env fr e acts items st)
  then show ?case by simp
next
  case (4 fuel cfg env fr p opts acts items st)
  from "4.prems" obtain ps nu where
    b: "build_foreignkey cfg (f_overrides fr) p opts (prop_schema st) (not_used_keys st) = Inr (ps, nu)"
    by (auto split: sum.splits)
  with "4.prems" "4.IH"[OF b refl] build_foreignkey_nu[OF b] show ?case by auto
next
  case (5 fuel cfg env fr j p opts acts items st)
  then show ?case by simp
next
  case (6 fuel cfg env fr p opts acts items st)
  from "6.prems" obtain cfr cst where e: "enter_relationship cfg env fr p st = Inr (cfr, cst)"
    by (auto split: sum.splits)
  from "6.prems" e obtain cst' where
    c: "(if depth_exhausted (f_depth cfr) then Some (Inr cst)
         else (case fuel of 0 \<Rightarrow> None | Suc n \<Rightarrow> build_loop n cfg env cfr [] (iterate (f_walker cfr)) cst))
        = Some (Inr cst')"
    by (auto split: sum.splits option.splits)
  from "6.prems" e c obtain st1 where l: "leave_relationship cfg env fr p st cst' = Inr st1"
    by (auto split: sum.splits)
  from "6.prems" e c l have r: "build_loop fuel cfg env fr acts items st1 = Some (Inr st')" by simp
  from "6.IH"(2)[OF e refl c refl l r] leave_relationship_nu[OF l] show ?case by simp
qed

lemma build_properties_nu:
  "build_properties fuel cfg env w params depth st = Some (Inr st') \<Longrightarrow>
     set (not_used_keys st') \<subseteq> set (not_used_keys st)"
  by (auto simp: build_properties_def split: if_splits dest!: build_loop_nu)

lemma eval_item_error:
  "eval_item m wk it = Inl e \<Longrightarrow> (\<exists>n. e = KeyError n) \<or> it = Raise e"
  by (cases it) (auto simp: eval_item_def ebind_def props_lookup_def split: sum.splits option.splits)

lemma walk_items_error:
  "walk_items w hist wk items = Inl e \<Longrightarrow> (\<exists>n. e = KeyError n) \<or> Raise e \<in> set items"
proof (induction items arbitrary: wk)
  case Nil then show ?case by simp
next
  case (Cons it items)
  show ?case
  proof (cases "eval_item (w_mapper w) wk it")
    case (Inl e') with Cons.prems eval_item_error[OF Inl] show ?thesis by (auto simp: ebind_def)
  next
    case (Inr b)
    obtain p wk1 where b: "b = (p, wk1)" by (cases b)
    with Cons.prems Inr have "walk_items w hist wk1 items = Inl e"
      by (auto simp: ebind_def split: sum.splits)
    from Cons.IH[OF this] show ?thesis by auto
  qed
qed

lemma iterate_raises:
  "Raise e \<in> set (iterate w) \<Longrightarrow> (\<exists>n. e = KeyError n) \<or> (\<exists>d. e = Exception d)"
  by (auto simp: iterate_def Let_def treat_relationship_def
           split: walker_kind.splits option.splits if_splits)

lemma detect_required_error:
  "detect_required w h wk = Inl e \<Longrightarrow> (\<exists>n. e = KeyError n) \<or> (\<exists>d. e = Exception d)"
  by (auto simp: detect_required_def walk_def ebind_def split: sum.splits
           dest!: walk_items_error iterate_raises)

text \<open>
  What decides the error of leftover overrides: when the properties are built, the call
  fails with \<open>InvalidStatus\<close> listing the keys that the collection made of the caller's
  mapping still holds as unused (they are keys the caller gave), and when that collection
  holds none, the call does not fail with that error.
\<close>

lemma leftover_keys_decide_error:
  assumes "walker_init (walker_class cfg) model includes excludes None [] = Inr (w, h)"
    and "build_properties fuel cfg env w params depth (initial_state model params h) = Some (Inr st)"
  shows "set (not_used_keys st) \<subseteq> fst ` set params \<and>
         (not_used_keys st \<noteq> [] \<longrightarrow>
            generate fuel cfg env model includes excludes params depth
              = Some (Inl (InvalidStatus (InvalidOverrides (not_used_keys st))))) \<and>
         (not_used_keys st = [] \<longrightarrow>
            (\<forall>ks. generate fuel cfg env model includes excludes params depth
                    \<noteq> Some (Inl (InvalidStatus (InvalidOverrides ks)))))"
proof -
  have g: "generate fuel cfg env model includes excludes params depth = Some (finish model w st)"
    using assms by (simp add: generate_def)
  have 1: "set (not_used_keys st) \<subseteq> fst ` set params"
    using build_properties_nu[OF assms(2)] by (simp add: initial_state_def)
  have 2: "not_used_keys st \<noteq> [] \<longrightarrow> finish model w st = Inl (InvalidStatus (InvalidOverrides (not_used_keys st)))"
    by (simp add: finish_def)
  have 3: "not_used_keys st = [] \<longrightarrow> (\<forall>ks. finish model w st \<noteq> Inl (InvalidStatus (InvalidOverrides ks)))"
    by (auto simp: finish_def ebind_def Let_def split: sum.splits dest!: detect_required_error)
  from g 1 2 3 show ?thesis by simp
qed

text \<open>
  Claim C6 fails in the code, in both directions.  The unused keys are kept for each
  collection apart: \<^verbatim>\<open>child_overrides\<close> makes a new collection for the related model, with
  a set \<^verbatim>\<open>not_used_keys\<close> of its own, and \<^verbatim>\<open>__call__\<close> tests the set of the collection made
  of the caller's mapping, from which a dotted key is never removed.  With the overrides
  \<open>{children.name: F}\<close> on \<^verbatim>\<open>Parent\<close>, the recursive call for \<^verbatim>\<open>Child\<close> has the collection
  \<open>{name: F}\<close>, writes \<open>F\<close> into the field \<^verbatim>\<open>name\<close> and leaves no key of its collection
  unused; the field is in the definition of \<^verbatim>\<open>Child\<close> when the properties are built, and
  the call still fails with \<open>InvalidStatus\<close> listing \<^verbatim>\<open>children.name\<close>.  A key that names
  no field is accepted when another key names one: with \<open>{bogus: x, name: F}\<close> on \<^verbatim>\<open>User\<close>,
  building \<^verbatim>\<open>name\<close> removes both keys and the call returns, \<^verbatim>\<open>bogus\<close> written into the
  field \<^verbatim>\<open>name\<close>; alone, \<open>{bogus: x}\<close> is rejected.
\<close>

theorem nested_override_rejected:
  "(case enter_relationship ex_config ex_family
           \<lparr>f_walker = mk_walker AlsoChildrenWalker ex_parent None None 0,
            f_overrides = [(''children.name'', Value ex_override)],
            f_depth = None, f_history = 1, f_toplevel = True\<rparr>
           (RelationshipProperty ex_children)
           (initial_state ex_parent [(''children.name'', Value ex_override)] [[], []]) of
      Inr (cfr, cst) \<Rightarrow>
        f_overrides cfr = [(''name'', Value ex_override)] \<and> not_used_keys cst = [''name''] \<and>
        (case build_loop 7 ex_config ex_family cfr [] (iterate (f_walker cfr)) cst of
           Some (Inr cst') \<Rightarrow>
             not_used_keys cst' = [] \<and>
             map_of (prop_schema cst') ''name''
               = Some (JObj [(''type'', JStr ''string''), (''maxLength'', JInt 50), (''name'', ex_override)])
         | _ \<Rightarrow> False)
    | Inl e \<Rightarrow> False) \<and>
   walker_init (walker_class ex_config) ex_parent None None None []
     = Inr (mk_walker AlsoChildrenWalker ex_parent None None 0, [[]]) \<and>
   (case build_properties 7 ex_config ex_family (mk_walker AlsoChildrenWalker ex_parent None None 0)
           [(''children.name'', Value ex_override)] None
           (initial_state ex_parent [(''children.name'', Value ex_override)] [[]]) of
      Some (Inr st) \<Rightarrow>
        not_used_keys st = [''children.name''] \<and>
        map_of (root_schema st) ''definitions''
          = Some (JObj
             [(''Child'',
               JObj
                [(''type'', JStr ''object''),
                 (''properties'',
                  JObj
                   [(''cid'', JObj [(''type'', JStr ''integer'')]),
                    (''name'',
                     JObj [(''type'', JStr ''string''), (''maxLength'', JInt 50), (''name'', ex_override)]),
                    (''secret'', JObj [(''type'', JStr ''string''), (''maxLength'', JInt 50)])]),
                 (''required'', JList [JStr ''pid''])])])
    | _ \<Rightarrow> False) \<and>
   generate 7 ex_config ex_family ex_parent None None [(''children.name'', Value ex_override)] None
     = Some (Inl (InvalidStatus (InvalidOverrides [''children.name'']))) \<and>
   generate 0 ex_config [] ex_user None None
       [(''bogus'', Value (JStr ''x'')), (''name'', Value ex_override)] None
     = Some (Inr (''User'',
          [(''$schema'', JStr ''http://json-schema.org/draft-04/schema#''),
           (''title'', JStr ''User''), (''type'', JStr ''object''),
           (''properties'',
            JObj
             [(''id'', JObj [(''type'', JStr ''integer'')]),
              (''name'',
               JObj
                [(''type'', JStr ''string''), (''maxLength'', JInt 50),
                 (''bogus'', JStr ''x''), (''name'', ex_override)])]),
           (''required'', JList [JStr ''id''])])) \<and>
   generate 0 ex_config [] ex_user None None [(''bogus'', Value (JStr ''x''))] None
     = Some (Inl (InvalidStatus (InvalidOverrides [''bogus''])))"
  by code_simp

lemma map_of_dict_update_other:
  "k \<notin> fst ` set opts \<Longrightarrow> map_of (dict_update d opts) k = map_of d k"
  by (induction opts arbitrary: d) (auto simp: map_of_dict_set)

lemma build_column_in_overrides:
  assumes "build_column cfg params column opts nu = Inr (sub, nu')"
    and "c_name column \<in> fst ` set params"
  shows "\<exists>sub3 sub4. overrides params sub3 nu = Inr (sub4, nu') \<and> sub = dict_update sub4 opts"
  using assms
  by (auto simp: build_column_def ebind_def Let_def
           split: coltype.splits sum.splits prod.splits if_splits option.splits)

text \<open>
  Claim C10.  When the name of a produced column is a key of the override mapping and
  the field schema is built, every pair of the whole mapping (with a value that is not
  the pop marker, and a key that the decision's extra options do not overwrite) is in that
  one field schema, and no key is left unused.  With one override for each of the two
  columns of \<^verbatim>\<open>User\<close>, the second column finds the set of unused keys empty and the
  generation raises \<open>KeyError\<close>.
\<close>

theorem overrides_all_at_once:
  assumes "distinct (map fst params)" and "c_name column \<in> fst ` set params"
    and "build_column cfg params column opts (map fst params) = Inr (sub, nu')"
  shows "nu' = [] \<and>
         (\<forall>k j. (k, Value j) \<in> set params \<and> k \<notin> fst ` set opts \<longrightarrow> map_of sub k = Some j) \<and>
         generate 0 ex_config [] ex_user None None
           [(''id'', Value ex_override), (''name'', Value ex_override)] None
           = Some (Inl (KeyError ''id''))"
proof -
  from build_column_in_overrides[OF assms(3,2)] obtain sub3 sub4 where
    o: "overrides params sub3 (map fst params) = Inr (sub4, nu')" and s: "sub = dict_update sub4 opts"
    by blast
  from overrides_result[OF o assms(1)]
  have 1: "nu' = filter (\<lambda>k. k \<notin> fst ` set params) (map fst params)"
    and 2: "\<forall>k j. (k, Value j) \<in> set params \<longrightarrow> map_of sub4 k = Some j" by blast+
  have "filter (\<lambda>k. k \<notin> fst ` set params) (map fst params) = []"
    by (auto simp: filter_empty_conv)
  with 1 have a: "nu' = []" by simp
  have b: "\<forall>k j. (k, Value j) \<in> set params \<and> k \<notin> fst ` set opts \<longrightarrow> map_of sub k = Some j"
    using 2 s by (simp add: map_of_dict_update_other)
  have c: "generate 0 ex_config [] ex_user None None
           [(''id'', Value ex_override), (''name'', Value ex_override)] None
           = Some (Inl (KeyError ''id''))"
    by code_simp
  from a b c show ?thesis by blast
qed

theorem overrides_all_at_once_witness:
  "build_column ex_config [(''id'', Value ex_override), (''name'', Value ex_override)]
     (mk_column ''User'' ''id'' ex_integer False False) []
     (map fst [(''id'', Value ex_override), (''name'', Value ex_override)])
     = Inr ([(''type'', JStr ''integer''), (''id'', ex_override), (''name'', ex_override)], [])"
proof -
  let ?params = "[(''id'', Value ex_override), (''name'', Value ex_override)]"
  let ?c = "mk_column ''User'' ''id'' ex_integer False False"
  let ?sub = "[(''type'', JStr ''integer''), (''id'', ex_override), (''name'', ex_override)]"
  have 1: "distinct (map fst ?params)" by simp
  have 2: "c_name ?c \<in> fst ` set ?params" by (simp add: mk_column_def)
  have 3: "build_column ex_config ?params ?c [] (map fst ?params) = Inr (?sub, [])" by code_simp
  from overrides_all_at_once[OF 1 2 3] have "map_of ?sub ''name'' = Some ex_override" by simp
  with 3 show ?thesis by simp
qed







subsection \<open>Termination and the traversal history\<close>

lemma build_properties_returns:
  assumes "guarded (w_kind w)" and "card (set (all_props env)) < fuel"
  shows "\<exists>res. build_properties fuel cfg env w params depth st = Some res \<and>
           (\<forall>st'. res = Inr st' \<longrightarrow>
              (\<exists>segs. segs = (if depth_exhausted depth then []
                              else descents fuel cfg env
                                     \<lparr>f_walker = w, f_overrides = params, f_depth = depth,
                                      f_history = length (heap st), f_toplevel = True\<rparr>
                                     [] (iterate w) (st\<lparr>heap := heap st @ [[]], prop_schema := []\<rparr>)) \<and>
                      deref (heap st') (length (heap st)) = segments_log segs \<and>
                      descents_fresh [] segs))"
proof (cases "depth_exhausted depth")
  case True
  have "deref (heap st) (length (heap st)) = segments_log []" by (simp add: deref_def segments_log_def)
  then show ?thesis using True by (simp add: build_properties_def)
next
  case False
  let ?a = "length (heap st)"
  let ?fr = "\<lparr>f_walker = w, f_overrides = params, f_depth = depth, f_history = ?a, f_toplevel = True\<rparr>"
  let ?st1 = "st\<lparr>heap := heap st @ [[]], prop_schema := []\<rparr>"
  let ?segs = "descents fuel cfg env ?fr [] (iterate w) ?st1"
  have g: "guarded (w_kind (f_walker ?fr))" using assms(1) by simp
  have lt: "f_history ?fr < length (heap ?st1)" by simp
  from build_loop_root[OF g lt assms(2), of cfg "[]" "iterate w"]
  obtain res where r: "build_loop fuel cfg env ?fr [] (iterate w) ?st1 = Some res"
    and rp: "\<forall>st'. res = Inr st' \<longrightarrow> top_level_extended (f_history ?fr) ?st1 st' ?segs" by blast
  have "deref (heap st') ?a = segments_log ?segs \<and> descents_fresh [] ?segs"
    if "res = Inr st'" for st'
  proof -
    from rp that have t: "top_level_extended ?a ?st1 st' ?segs" by simp
    have e: "heap ?st1 ! ?a = []" by simp
    from t have l: "length (heap st') = length (heap ?st1)"
      and h: "heap st' ! ?a = heap ?st1 ! ?a @ segments_log ?segs"
      and f: "descents_fresh (heap ?st1 ! ?a) ?segs"
      unfolding top_level_extended_def by blast+
    have "deref (heap st') ?a = heap st' ! ?a" using l by (simp add: deref_def)
    then have "deref (heap st') ?a = segments_log ?segs" using h e by simp
    moreover have "descents_fresh [] ?segs" using f e by simp
    ultimately show ?thesis by blast
  qed
  then show ?thesis using False r by (simp add: build_properties_def)
qed

text \<open>
  Claim C2, as the code has it.  With a walker class that tests the history (the
  structural walker and the hand-controlled one), over any finite set of mapped classes,
  cyclic or not, and for every depth setting, a generation call returns: it needs no more
  nested recursions than there are properties.  The history it leaves is the sequence of
  its descents: each descent of the top level, followed by the descents of the recursive
  calls below it.  What the recursive calls descend into differs from one another and
  from all that was descended into before in the call, at the top level or below it:
  below the top level no relationship property is descended into twice, nor one that was
  descended into before.  The same holds of every recursive call by itself, whatever the
  history it starts from: what it appends is new and without repetition.  (Only the
  walker of the top level, which keeps a list of its own that stays empty, may descend
  into a property again.)
\<close>

theorem traversal_terminates:
  assumes "guarded (walker_class cfg)" and "length (all_props env) < fuel"
  shows "(\<exists>r. generate fuel cfg env model includes excludes params depth = Some r) \<and>
         (\<forall>log. descent_log fuel cfg env model includes excludes params depth = Some (Inr log) \<longrightarrow>
            log = segments_log (descent_segments fuel cfg env model includes excludes params depth) \<and>
            descents_fresh [] (descent_segments fuel cfg env model includes excludes params depth)) \<and>
         (\<forall>fr st st'.
             child_frame env fr st \<and>
             build_loop fuel cfg env fr [] (iterate (f_walker fr)) st = Some (Inr st')
           \<longrightarrow> (\<exists>ext. heap st' ! f_history fr = heap st ! f_history fr @ ext \<and> distinct ext \<and>
                      set ext \<inter> set (heap st ! f_history fr) = {}))"
proof -
  let ?segs = "descent_segments fuel cfg env model includes excludes params depth"
  have c: "card (set (all_props env)) < fuel" using card_all_props[of env] assms(2) by simp
  have 1: "\<exists>r. generate fuel cfg env model includes excludes params depth = Some r"
  proof (cases "walker_init (walker_class cfg) model includes excludes None []")
    case (Inl e) then show ?thesis by (simp add: generate_def)
  next
    case (Inr b)
    obtain w h where b: "b = (w, h)" by (cases b)
    have g: "guarded (w_kind w)" using walker_init_kind[OF Inr[unfolded b]] assms(1) by simp
    from build_properties_returns[OF g c, of cfg params depth "initial_state model params h"]
    obtain res where "build_properties fuel cfg env w params depth (initial_state model params h) = Some res"
      by blast
    then show ?thesis using Inr b by (cases res) (simp_all add: generate_def)
  qed
  have 2: "log = segments_log ?segs \<and> descents_fresh [] ?segs"
    if d: "descent_log fuel cfg env model includes excludes params depth = Some (Inr log)" for log
  proof (cases "walker_init (walker_class cfg) model includes excludes None []")
    case (Inl e) with d show ?thesis by (simp add: descent_log_def)
  next
    case (Inr b)
    obtain w h where b: "b = (w, h)" by (cases b)
    have g: "guarded (w_kind w)" using walker_init_kind[OF Inr[unfolded b]] assms(1) by simp
    let ?st = "initial_state model params h"
    have hl: "heap ?st = h" by (simp add: initial_state_def)
    have sg: "?segs = (if depth_exhausted depth then []
                       else descents fuel cfg env
                              \<lparr>f_walker = w, f_overrides = params, f_depth = depth,
                               f_history = length (heap ?st), f_toplevel = True\<rparr>
                              [] (iterate w) (?st\<lparr>heap := heap ?st @ [[]], prop_schema := []\<rparr>))"
      using Inr b hl by (simp add: descent_segments_def)
    from build_properties_returns[OF g c, of cfg params depth ?st]
    obtain res where r: "build_properties fuel cfg env w params depth ?st = Some res"
      and rp: "\<forall>st'. res = Inr st' \<longrightarrow>
                 deref (heap st') (length (heap ?st)) = segments_log ?segs \<and> descents_fresh [] ?segs"
      unfolding sg by blast
    from d Inr b r obtain st' where s: "res = Inr st'" and l: "log = deref (heap st') (length h)"
      by (cases res) (auto simp: descent_log_def)
    from rp s hl l show ?thesis by simp
  qed
  have 3: "\<exists>ext. heap st' ! f_history fr = heap st ! f_history fr @ ext \<and> distinct ext \<and>
                 set ext \<inter> set (heap st ! f_history fr) = {}"
    if cf: "child_frame env fr st"
      and b: "build_loop fuel cfg env fr [] (iterate (f_walker fr)) st = Some (Inr st')"
    for fr st st'
  proof -
    have ao: "acts_ok (set (all_props env)) (heap st ! f_history fr) []" by (simp add: acts_ok_def)
    have "card (set (all_props env) - set (heap st ! f_history fr)) \<le> card (set (all_props env))"
      by (rule card_mono) auto
    then have cd: "card (set (all_props env) - set (heap st ! f_history fr)) \<le> fuel"
      using c by simp
    from build_loop_child[OF cf items_ok_iterate ao cd, of cfg] b
    have "history_extended (f_history fr) st st'" by simp
    then obtain ext where "heap st' ! f_history fr = heap st ! f_history fr @ ext" "distinct ext"
      "set ext \<inter> set (heap st ! f_history fr) = {}" by (rule history_extended_elim)
    then show ?thesis by blast
  qed
  from 1 2 3 show ?thesis by blast
qed

theorem traversal_terminates_witness:
  "guarded (walker_class ex_config) \<and> length (all_props ex_cycle_env) < 7 \<and>
   (\<exists>r. generate 7 ex_config ex_cycle_env ex_a None None [] None = Some r) \<and>
   descent_log 7 ex_config ex_cycle_env ex_a None None [] None =
     Some (Inr [RelationshipProperty ex_bs, RelationshipProperty ex_b_a,
                RelationshipProperty ex_cs, RelationshipProperty ex_cs]) \<and>
   descent_segments 7 ex_config ex_cycle_env ex_a None None [] None =
     [(RelationshipProperty ex_bs, [RelationshipProperty ex_b_a, RelationshipProperty ex_cs]),
      (RelationshipProperty ex_cs, [])] \<and>
   descents_fresh []
     [(RelationshipProperty ex_bs, [RelationshipProperty ex_b_a, RelationshipProperty ex_cs]),
      (RelationshipProperty ex_cs, [])] \<and>
   enter_relationship ex_config ex_cycle_env ex_frame_a (RelationshipProperty ex_bs)
     (initial_state ex_a [] [[], []]) = Inr (ex_frame_b, ex_state_b) \<and>
   child_frame ex_cycle_env ex_frame_b ex_state_b \<and>
   (case build_loop 7 ex_config ex_cycle_env ex_frame_b [] (iterate (f_walker ex_frame_b)) ex_state_b of
      Some (Inr st') \<Rightarrow>
        heap st' ! f_history ex_frame_b
          = heap ex_state_b ! f_history ex_frame_b @ [RelationshipProperty ex_b_a, RelationshipProperty ex_cs]
    | _ \<Rightarrow> False) \<and>
   child_frame ex_cycle_env ex_frame_c ex_state_c \<and>
   \<not> distinct (heap ex_state_c ! f_history ex_frame_c) \<and>
   (\<exists>st' ext. build_loop 7 ex_config ex_cycle_env ex_frame_c [] (iterate (f_walker ex_frame_c)) ex_state_c
                 = Some (Inr st') \<and>
               heap st' ! f_history ex_frame_c = heap ex_state_c ! f_history ex_frame_c @ ext \<and>
               distinct ext \<and> set ext \<inter> set (heap ex_state_c ! f_history ex_frame_c) = {})"
proof -
  let ?log = "[RelationshipProperty ex_bs, RelationshipProperty ex_b_a,
               RelationshipProperty ex_cs, RelationshipProperty ex_cs]"
  let ?segs = "[(RelationshipProperty ex_bs, [RelationshipProperty ex_b_a, RelationshipProperty ex_cs]),
                (RelationshipProperty ex_cs, [])]"
  have 1: "guarded (walker_class ex_config)" by code_simp
  have 2: "length (all_props ex_cycle_env) < 7" by code_simp
  have 3: "descent_log 7 ex_config ex_cycle_env ex_a None None [] None = Some (Inr ?log)" by code_simp
  have s: "descent_segments 7 ex_config ex_cycle_env ex_a None None [] None = ?segs" by code_simp
  have 4: "enter_relationship ex_config ex_cycle_env ex_frame_a (RelationshipProperty ex_bs)
     (initial_state ex_a [] [[], []]) = Inr (ex_frame_b, ex_state_b)" by code_simp
  have 5: "child_frame ex_cycle_env ex_frame_b ex_state_b" by code_simp
  have 6: "case build_loop 7 ex_config ex_cycle_env ex_frame_b [] (iterate (f_walker ex_frame_b)) ex_state_b of
      Some (Inr st') \<Rightarrow>
        heap st' ! f_history ex_frame_b
          = heap ex_state_b ! f_history ex_frame_b @ [RelationshipProperty ex_b_a, RelationshipProperty ex_cs]
    | _ \<Rightarrow> False" by code_simp
  have 7: "child_frame ex_cycle_env ex_frame_c ex_state_c" by code_simp
  have 8: "\<not> distinct (heap ex_state_c ! f_history ex_frame_c)" by code_simp
  have "case build_loop 7 ex_config ex_cycle_env ex_frame_c [] (iterate (f_walker ex_frame_c)) ex_state_c of
          Some (Inr st') \<Rightarrow> True | _ \<Rightarrow> False" by code_simp
  then obtain st' where
    9: "build_loop 7 ex_config ex_cycle_env ex_frame_c [] (iterate (f_walker ex_frame_c)) ex_state_c
          = Some (Inr st')"
    by (auto split: option.splits sum.splits)
  note t = traversal_terminates[OF 1 2, of ex_a None None "[]" None]
  from t have a: "\<exists>r. generate 7 ex_config ex_cycle_env ex_a None None [] None = Some r" by blast
  from t 3 have "descents_fresh [] (descent_segments 7 ex_config ex_cycle_env ex_a None None [] None)"
    by blast
  then have b: "descents_fresh [] ?segs" unfolding s .
  from t 7 9 have c: "\<exists>ext. heap st' ! f_history ex_frame_c = heap ex_state_c ! f_history ex_frame_c @ ext \<and>
                 distinct ext \<and> set ext \<inter> set (heap ex_state_c ! f_history ex_frame_c) = {}" by blast
  from 9 c have d: "\<exists>st' ext. build_loop 7 ex_config ex_cycle_env ex_frame_c [] (iterate (f_walker ex_frame_c)) ex_state_c
                 = Some (Inr st') \<and>
               heap st' ! f_history ex_frame_c = heap ex_state_c ! f_history ex_frame_c @ ext \<and>
               distinct ext \<and> set ext \<inter> set (heap ex_state_c ! f_history ex_frame_c) = {}" by blast
  from 1 2 a 3 s b 4 5 6 7 8 d show ?thesis by blast
qed

text \<open>
  Claim C2 as stated fails at the top level.  From \<^verbatim>\<open>A\<close> the call descends into
  \<^verbatim>\<open>bs\<close>, from \<^verbatim>\<open>B\<close> into \<^verbatim>\<open>a\<close>, from \<^verbatim>\<open>A\<close> (reached again) into \<^verbatim>\<open>cs\<close>; back at the top
  level the walker tests its own empty list and descends into \<^verbatim>\<open>cs\<close> a second time.
\<close>

theorem root_descends_again_counterexample:
  "descent_log 7 ex_config ex_cycle_env ex_a None None [] None =
     Some (Inr [RelationshipProperty ex_bs, RelationshipProperty ex_b_a,
                RelationshipProperty ex_cs, RelationshipProperty ex_cs])"
  by code_simp

subsection \<open>The comfortable decision policy\<close>

lemma flatten_elements:
  "y \<in> set (flatten m r) \<Longrightarrow>
     (\<exists>n. y = Inl (KeyError n)) \<or> (\<exists>q. y = Inr (FOREIGNKEY, q, [(''relation'', JStr (r_key r))]))"
  by (auto simp: flatten_def props_lookup_def split: sum.splits option.splits)

text \<open>
  What the comfortable policy does with a many-to-one relationship below the top level:
  it compares the local columns with the remote side of the first property of the
  walker's history, \<^verbatim>\<open>walker.history[0]\<close>.  When they differ, it yields one action for each
  local column, a foreign-key action tagged with the relationship's key (or the \<open>KeyError\<close>
  of a column that is no property of the mapper); when they are equal, it yields nothing.
\<close>

lemma comfortable_desicion_many_to_one:
  assumes "relation_decision cfg = ComfortableDesicion" and "r_direction r = MANYTOONE"
    and "deref h (w_history w) = RelationshipProperty rp # rest"
  shows "desicion cfg w h (RelationshipProperty r) False =
           (if set (r_local_columns r) \<noteq> set (r_remote_side rp) then flatten (w_mapper w) r else []) \<and>
         length (flatten (w_mapper w) r) = length (r_local_columns r) \<and>
         (\<forall>y \<in> set (flatten (w_mapper w) r).
            (\<exists>n. y = Inl (KeyError n)) \<or>
            (\<exists>q. y = Inr (FOREIGNKEY, q, [(''relation'', JStr (r_key r))])))"
  using assms flatten_elements[of _ "w_mapper w" r]
  by (auto simp: desicion_def comfortable_desicion_def flatten_def)

text \<open>
  Claim C3 fails in the code.  A shop has two one-to-many relationships, \<^verbatim>\<open>staff\<close> to its
  clerks and \<^verbatim>\<open>items\<close> to its items, and a clerk and an item each have the many-to-one
  \<^verbatim>\<open>shop\<close> over \<^verbatim>\<open>shop_id\<close>, the remote side of the relationship they are reached through.
  The history is never popped, so the clerks are built with the history \<open>[staff]\<close> and the
  items with \<open>[staff, items]\<close>, and the policy reads the first element of it.  For the clerk
  that is the parent relationship: \<^verbatim>\<open>shop\<close> yields nothing.  For the item it is \<^verbatim>\<open>staff\<close>
  again, not the parent \<^verbatim>\<open>items\<close>: the local column of \<^verbatim>\<open>shop\<close> equals the remote side of
  the parent relationship, and yet \<^verbatim>\<open>shop\<close> is flattened into \<^verbatim>\<open>shop_id\<close>, which appears in
  the definition of \<^verbatim>\<open>Item\<close> and not in that of \<^verbatim>\<open>Clerk\<close>.
\<close>

theorem comfortable_misses_parent:
  "descent_log 7 ex_comfortable ex_shop_env ex_shop None None [] None
     = Some (Inr [RelationshipProperty ex_staff, RelationshipProperty ex_items]) \<and>
   relation_decision ex_comfortable = ComfortableDesicion \<and>
   r_direction ex_clerk_shop = MANYTOONE \<and> r_direction ex_item_shop = MANYTOONE \<and>
   set (r_local_columns ex_clerk_shop) = set (r_remote_side ex_staff) \<and>
   desicion ex_comfortable (mk_walker AlsoChildrenWalker ex_clerk None (Some [None, None]) 1)
     [[], [RelationshipProperty ex_staff]] (RelationshipProperty ex_clerk_shop) False = [] \<and>
   set (r_local_columns ex_item_shop) = set (r_remote_side ex_items) \<and>
   desicion ex_comfortable (mk_walker AlsoChildrenWalker ex_item None (Some [None, None]) 1)
     [[], [RelationshipProperty ex_staff, RelationshipProperty ex_items]]
     (RelationshipProperty ex_item_shop) False
     = [Inr (FOREIGNKEY,
             ColumnProperty ''shop_id'' (mk_column ''Item'' ''shop_id'' ex_integer True True) [],
             [(''relation'', JStr ''shop'')])] \<and>
   generate 7 ex_comfortable ex_shop_env ex_shop None None [] None =
     Some (Inr (''Shop'',
        [(''$schema'', JStr ''http://json-schema.org/draft-04/schema#''),
         (''title'', JStr ''Shop''), (''type'', JStr ''object''),
         (''definitions'',
          JObj
           [(''Clerk'',
             JObj
              [(''type'', JStr ''object''),
               (''properties'', JObj [(''id'', JObj [(''type'', JStr ''integer'')])]),
               (''required'', JList [JStr ''id''])]),
            (''Item'',
             JObj
              [(''type'', JStr ''object''),
               (''properties'',
                JObj
                 [(''id'', JObj [(''type'', JStr ''integer'')]),
                  (''shop_id'', JObj [(''type'', JStr ''integer''), (''relation'', JStr ''shop'')])]),
               (''required'', JList [JStr ''id''])])]),
         (''properties'',
          JObj
           [(''id'', JObj [(''type'', JStr ''integer'')]),
            (''staff'',
             JObj [(''type'', JStr ''array''), (''items'', JObj [(''$ref'', JStr ''#/definitions/Clerk'')])]),
            (''items'',
             JObj [(''type'', JStr ''array''), (''items'', JObj [(''$ref'', JStr ''#/definitions/Item'')])])]),
         (''required'', JList [JStr ''id''])]))"
  by code_simp

subsection \<open>The child walker and the definitions\<close>

text \<open>
  Claim C4 at a concrete parent walker.  \<^verbatim>\<open>child_walker\<close> narrows the parent's
  \<^bold>\<open>includes\<close> for the child's excludes.  With the parent excluding \<^verbatim>\<open>children.secret\<close>, the
  child walker excludes only the back reference, and \<^verbatim>\<open>secret\<close> stays in the child's
  schema; with the parent including \<^verbatim>\<open>children.name\<close>, the child is given \<^verbatim>\<open>name\<close> both
  as include and as exclude, and its construction raises \<open>InvalidStatus\<close>.
\<close>

theorem child_walker_excludes_from_includes:
  "child_walker ex_config ex_family ex_children
     (mk_walker AlsoChildrenWalker ex_parent None (Some [Some ''children.secret'']) 0)
     (Some 1) [[], [RelationshipProperty ex_children]]
     = Inr (mk_walker AlsoChildrenWalker ex_child None (Some [None, Some ''parent'']) 1,
            [[], [RelationshipProperty ex_children]]) \<and>
   child_walker ex_config ex_family ex_children
     (mk_walker AlsoChildrenWalker ex_parent (Some [''children'', ''children.name''])
        (Some [Some ''children.secret'']) 0)
     (Some 1) [[], [RelationshipProperty ex_children]]
     = Inl (InvalidStatus (Conflict [''name''] [Some ''name'', None, Some ''parent''])) \<and>
   generate 7 ex_config ex_family ex_parent (Some [''pid'', ''children'', ''children.name'']) None [] None
     = Some (Inl (InvalidStatus (Conflict [''name''] [Some ''name'', None, Some ''parent''])))"
  by code_simp

text \<open>
  Claim C8 at a concrete model.  \<^verbatim>\<open>_build_properties\<close> passes its own walker, the
  parent's, to \<^verbatim>\<open>_add_property_with_reference\<close>: the definition of \<^verbatim>\<open>Child\<close> receives the
  required list of \<^verbatim>\<open>Parent\<close>, \<open>[pid]\<close>, where the child's walker gives \<open>[cid]\<close>.
\<close>

theorem definition_required_from_parent_walker:
  "generate 7 ex_config ex_family ex_parent None None [] None =
     Some (Inr (''Parent'',
        [(''$schema'', JStr ''http://json-schema.org/draft-04/schema#''),
         (''title'', JStr ''Parent''), (''type'', JStr ''object''),
         (''definitions'',
          JObj
           [(''Child'',
             JObj
              [(''type'', JStr ''object''),
               (''properties'',
                JObj
                 [(''cid'', JObj [(''type'', JStr ''integer'')]),
                  (''name'', JObj [(''type'', JStr ''string''), (''maxLength'', JInt 50)]),
                  (''secret'', JObj [(''type'', JStr ''string''), (''maxLength'', JInt 50)])]),
               (''required'', JList [JStr ''pid''])])]),
         (''properties'',
          JObj
           [(''pid'', JObj [(''type'', JStr ''integer'')]),
            (''children'',
             JObj [(''type'', JStr ''array''), (''items'', JObj [(''$ref'', JStr ''#/definitions/Child'')])])]),
         (''required'', JList [JStr ''pid''])])) \<and>
   detect_required (mk_walker AlsoChildrenWalker ex_child None (Some [None, Some ''parent'']) 1)
     [[], [RelationshipProperty ex_children]] [] = Inr ([''cid''], [])"
  by code_simp

end
